theory Spec2Isabelle
  imports Complex_Main "HOL-Library.Word" "HOL-Library.Product_Lexorder"
begin

section \<open>JavaScript values\<close>

text \<open>JavaScript truthiness of an optional string: absent and empty are falsy.\<close>

definition truthy :: "string option \<Rightarrow> bool" where
  "truthy s = (case s of None \<Rightarrow> False | Some v \<Rightarrow> v \<noteq> [])"

text \<open>\<^verbatim>\<open>a || d\<close> on an optional string with a string default.\<close>

definition or_else :: "string option \<Rightarrow> string \<Rightarrow> string" where
  "or_else s d = (case s of None \<Rightarrow> d | Some v \<Rightarrow> if v = [] then d else v)"


section \<open>PII scrubber\<close>

text \<open>
  \<^verbatim>\<open>PiiScrubber\<close>. The regular-expression engine is an input: for the pattern of an
  entity type (the seven patterns are named by their types, in the order of the source)
  and a text, \<open>ex ty text lastIndex\<close> is what \<^verbatim>\<open>pattern.regex.exec(text)\<close> returns when
  the pattern's \<^verbatim>\<open>lastIndex\<close> is \<open>lastIndex\<close>: \<open>None\<close> for \<^verbatim>\<open>null\<close>, else the index
  of the match and the matched string; a global pattern then sets \<^verbatim>\<open>lastIndex\<close> to the
  end of the match. Strings are lists of characters and positions count characters. The
  module-level \<^verbatim>\<open>entityCounters\<close> table is threaded through \<^verbatim>\<open>scrub\<close>.
\<close>

record PiiEntity =
  e_type :: string
  e_value :: string
  e_start :: nat
  e_end :: nat

type_synonym regex_exec = "string \<Rightarrow> string \<Rightarrow> nat \<Rightarrow> (nat \<times> string) option"

definition pattern_types :: "string list" where
  "pattern_types = [''EMAIL'', ''PHONE'', ''SSN'', ''CREDIT_CARD'', ''IP_ADDRESS'', ''AUTH_TOKEN'', ''DOB'']"

text \<open>
  The \<^verbatim>\<open>while ((match = pattern.regex.exec(text)) !== null)\<close> loop. It need not end
  (a pattern that matches the empty string never advances), so it is a partial function:
  \<open>None\<close> stands for a loop that does not return.
\<close>

partial_function (option) exec_loop ::
  "(nat \<Rightarrow> (nat \<times> string) option) \<Rightarrow> nat \<Rightarrow> (nat \<times> string) list option" where
  "exec_loop ex lastIndex =
     (case ex lastIndex of
        None \<Rightarrow> Some []
      | Some (i, m) \<Rightarrow>
          Option.bind (exec_loop ex (i + length m)) (\<lambda>rest. Some ((i, m) # rest)))"

definition entity_of :: "string \<Rightarrow> nat \<times> string \<Rightarrow> PiiEntity" where
  "entity_of ty im =
     \<lparr>e_type = ty, e_value = snd im, e_start = fst im, e_end = fst im + length (snd im)\<rparr>"

fun collect_entities :: "regex_exec \<Rightarrow> string \<Rightarrow> string list \<Rightarrow> PiiEntity list option" where
  "collect_entities ex text [] = Some []"
| "collect_entities ex text (ty # tys) =
     (case exec_loop (ex ty text) 0 of
        None \<Rightarrow> None
      | Some ms \<Rightarrow>
          (case collect_entities ex text tys of
             None \<Rightarrow> None
           | Some rest \<Rightarrow> Some (map (entity_of ty) ms @ rest)))"

text \<open>
  The loop of \<^verbatim>\<open>removeOverlaps\<close> over the sorted entities; \<open>result\<close> is never empty.
\<close>

fun overlap_loop :: "PiiEntity list \<Rightarrow> PiiEntity list \<Rightarrow> PiiEntity list" where
  "overlap_loop result [] = result"
| "overlap_loop result (e # es) =
     (let prev = last result in
      if e_start e \<ge> e_end prev then overlap_loop (result @ [e]) es
      else if int (e_end e) - int (e_start e) > int (e_end prev) - int (e_start prev)
      then overlap_loop (butlast result @ [e]) es
      else overlap_loop result es)"

text \<open>
  \<^verbatim>\<open>entities.sort((a, b) => a.start - b.start || b.end - a.end)\<close>: a stable sort, by
  start ascending and then by end descending.
\<close>

definition removeOverlaps :: "PiiEntity list \<Rightarrow> PiiEntity list" where
  "removeOverlaps entities =
     (if length entities \<le> 1 then entities
      else
        let sorted = sort_key (\<lambda>e. (e_start e, - int (e_end e))) entities
        in overlap_loop [hd sorted] (tl sorted))"

definition detect :: "regex_exec \<Rightarrow> string \<Rightarrow> PiiEntity list option" where
  "detect ex text = map_option removeOverlaps (collect_entities ex text pattern_types)"

definition containsPii :: "regex_exec \<Rightarrow> string \<Rightarrow> bool option" where
  "containsPii ex text = map_option (\<lambda>es. length es > 0) (detect ex text)"

text \<open>Decimal digits of a natural number, as \<^verbatim>\<open>String(n)\<close> gives them.\<close>

definition digit_char :: "nat \<Rightarrow> char" where
  "digit_char d = ''0123456789'' ! d"

fun decimal :: "nat \<Rightarrow> string" where
  "decimal n =
     (if n < 10 then [digit_char n]
      else decimal (n div 10) @ [digit_char (n mod 10)])"

declare decimal.simps [simp del]

text \<open>
  A character is a UTF-16 code unit below 256, the Latin-1 range. In that range
  \<^verbatim>\<open>toLowerCase\<close> moves \<^verbatim>\<open>A\<close> to \<^verbatim>\<open>Z\<close> and the accented capitals
  (\<open>0xC0\<close> to \<open>0xDE\<close>, the multiplication sign \<open>0xD7\<close> apart) up by 32, and
  \<^verbatim>\<open>\s\<close> holds the space, the five controls \<open>0x09\<close> to \<open>0x0D\<close> and the
  no-break space \<open>0xA0\<close>.
\<close>

definition toLowerCase_char :: "char \<Rightarrow> char" where
  "toLowerCase_char c =
     (if (65 \<le> (of_char c :: nat) \<and> (of_char c :: nat) \<le> 90)
         \<or> (192 \<le> (of_char c :: nat) \<and> (of_char c :: nat) \<le> 222 \<and> (of_char c :: nat) \<noteq> 215)
      then char_of ((of_char c :: nat) + 32) else c)"

text \<open>
  \<^verbatim>\<open>toUpperCase\<close> is used on an HTTP method, only to compare the result with the
  method names in capitals; it is given on \<^verbatim>\<open>a\<close> to \<^verbatim>\<open>z\<close>. No other code unit of
  the range has an upper-case form that occurs in one of these names, so the comparisons
  come out as in the code.
\<close>

definition toUpperCase_char :: "char \<Rightarrow> char" where
  "toUpperCase_char c =
     (if 97 \<le> (of_char c :: nat) \<and> (of_char c :: nat) \<le> 122 then char_of ((of_char c :: nat) - 32) else c)"

text \<open>\<^verbatim>\<open>value.toLowerCase().replace(/[\s\-.]/g, '')\<close>\<close>

definition normalize_value :: "string \<Rightarrow> string" where
  "normalize_value v =
     filter (\<lambda>c. c \<notin> set [CHR '' '', CHR 0x09, CHR 0x0A, CHR 0x0B, CHR 0x0C, CHR 0x0D, CHR 0xA0,
                              CHR ''-'', CHR ''.''])
       (map toLowerCase_char v)"

type_synonym entity_counters = "string \<Rightarrow> (string \<times> nat) list"

definition getReplacement :: "entity_counters \<Rightarrow> string \<Rightarrow> string \<Rightarrow> string \<times> entity_counters" where
  "getReplacement cs ty v =
     (let typeMap = cs ty; normalizedValue = normalize_value v in
      case map_of typeMap normalizedValue of
        Some n \<Rightarrow> (''['' @ ty @ ''_'' @ decimal n @ '']'', cs)
      | None \<Rightarrow>
          (''['' @ ty @ ''_'' @ decimal (length typeMap + 1) @ '']'',
           cs(ty := typeMap @ [(normalizedValue, length typeMap + 1)])))"

text \<open>The \<^verbatim>\<open>for\<close> loop of \<^verbatim>\<open>scrub\<close> over the entities sorted from the end.\<close>

fun splice_loop :: "entity_counters \<Rightarrow> string \<Rightarrow> PiiEntity list \<Rightarrow> string \<times> entity_counters" where
  "splice_loop cs result [] = (result, cs)"
| "splice_loop cs result (e # es) =
     (let (replacement, cs') = getReplacement cs (e_type e) (e_value e)
      in splice_loop cs' (take (e_start e) result @ replacement @ drop (e_end e) result) es)"

definition scrub :: "regex_exec \<Rightarrow> entity_counters \<Rightarrow> string \<Rightarrow> (string \<times> entity_counters) option" where
  "scrub ex cs text =
     (if text = [] then Some (text, cs)
      else
        case detect ex text of
          None \<Rightarrow> None
        | Some entities \<Rightarrow>
            if length entities = 0 then Some (text, cs)
            else Some (splice_loop cs text (sort_key (\<lambda>e. - int (e_start e)) entities)))"

definition resetCounters :: entity_counters where
  "resetCounters = (\<lambda>ty. [])"

text \<open>
  What replacing spans means, read from the start of the text: the entities in ascending
  order, each paired with its token; \<open>pos\<close> is where the untouched text resumes.
\<close>

fun replace_spans :: "nat \<Rightarrow> string \<Rightarrow> (PiiEntity \<times> string) list \<Rightarrow> string" where
  "replace_spans pos text [] = drop pos text"
| "replace_spans pos text ((e, r) # rest) =
     take (e_start e - pos) (drop pos text) @ r @ replace_spans (e_end e) text rest"

text \<open>The tokens \<^verbatim>\<open>getReplacement\<close> hands out for the entities in the order given.\<close>

fun assign_tokens :: "entity_counters \<Rightarrow> PiiEntity list \<Rightarrow> string list \<times> entity_counters" where
  "assign_tokens cs [] = ([], cs)"
| "assign_tokens cs (e # es) =
     (let (r, cs') = getReplacement cs (e_type e) (e_value e);
          (rs, cs'') = assign_tokens cs' es
      in (r # rs, cs''))"

text \<open>The contract of the engine on a text: a match lies at or after \<^verbatim>\<open>lastIndex\<close>,
  inside the text, and is not empty (none of the seven patterns matches the empty
  string: the shortest match, of PHONE, has seven digits).\<close>

definition engine_ok :: "regex_exec \<Rightarrow> string \<Rightarrow> bool" where
  "engine_ok ex text =
     (\<forall>ty k i m. ex ty text k = Some (i, m) \<longrightarrow> k \<le> i \<and> m \<noteq> [] \<and> i + length m \<le> length text)"

text \<open>A span lies inside a text of \<open>n\<close> characters and is not empty.\<close>

definition valid_span :: "nat \<Rightarrow> PiiEntity \<Rightarrow> bool" where
  "valid_span n e = (e_start e < e_end e \<and> e_end e \<le> n)"

text \<open>No two spans of the list overlap, and they come in the order of the text.\<close>

abbreviation chain :: "PiiEntity list \<Rightarrow> bool" where
  "chain \<equiv> sorted_wrt (\<lambda>a b. e_end a \<le> e_start b)"

text \<open>The loop of \<^verbatim>\<open>scrub\<close> with the tokens already chosen.\<close>

fun splice_desc :: "string \<Rightarrow> (PiiEntity \<times> string) list \<Rightarrow> string" where
  "splice_desc result [] = result"
| "splice_desc result ((e, r) # rest) =
     splice_desc (take (e_start e) result @ r @ drop (e_end e) result) rest"

text \<open>Spans paired with tokens, ascending from \<open>pos\<close> and ending by \<open>n\<close>.\<close>

fun spans_from :: "nat \<Rightarrow> nat \<Rightarrow> (PiiEntity \<times> string) list \<Rightarrow> bool" where
  "spans_from pos n [] = (pos \<le> n)"
| "spans_from pos n ((e, r) # rest) =
     (pos \<le> e_start e \<and> e_start e \<le> e_end e \<and> spans_from (e_end e) n rest)"

text \<open>
  An engine for one text of nine digits: the PHONE pattern matches its first eight
  characters and the SSN pattern all nine; no other pattern matches.
\<close>

definition sample_exec :: regex_exec where
  "sample_exec ty s k =
     (if s = ''123456789'' \<and> k = 0
      then (if ty = ''PHONE'' then Some (0, ''12345678'')
            else if ty = ''SSN'' then Some (0, ''123456789'') else None)
      else None)"


section \<open>Ingestion service\<close>

text \<open>
  The handler of \<^verbatim>\<open>ingest-events\<close> with its in-memory, per-device rate limiter. The
  module-level \<^verbatim>\<open>rateLimits\<close> map and the \<^verbatim>\<open>secure_events\<close> table are the state
  threaded through the calls. One call carries the clock reading (\<^verbatim>\<open>Date.now()\<close>), the
  answer of the store to the insert, and the request. Events are opaque here. The
  fire-and-forget trigger of the pattern detector does not touch this state.
\<close>

definition MAX_BATCH_SIZE :: nat where
  "MAX_BATCH_SIZE = 100"

definition RATE_LIMIT_PER_MINUTE :: nat where
  "RATE_LIMIT_PER_MINUTE = 1000"

record rate_entry =
  rl_count :: nat
  rl_resetAt :: int

type_synonym rate_limits = "string \<rightharpoonup> rate_entry"

text \<open>The parsed request body: \<open>b_events = None\<close> when \<^verbatim>\<open>events\<close> is missing or no array.\<close>

record 'e batch =
  b_events :: "'e list option"
  b_deviceFingerprint :: "string option"
  b_batchId :: string

record 'e ingest_call =
  c_now :: int
  c_insertError :: "string option"
  c_method :: string
  c_device_header :: "string option"
  c_body :: "'e batch option"

record ingest_response =
  r_status :: nat
  r_code :: "string option"
  r_retry_after :: "string option"
  r_accepted :: "nat option"

record 'e ingest_state =
  rateLimits :: rate_limits
  secure_events :: "(string \<times> 'e) list"

definition checkRateLimit :: "int \<Rightarrow> string \<Rightarrow> rate_limits \<Rightarrow> bool \<times> rate_limits" where
  "checkRateLimit now deviceId rl =
     (case rl deviceId of
        None \<Rightarrow> (True, rl(deviceId \<mapsto> \<lparr>rl_count = 1, rl_resetAt = now + 60000\<rparr>))
      | Some entry \<Rightarrow>
          if now \<ge> rl_resetAt entry
          then (True, rl(deviceId \<mapsto> \<lparr>rl_count = 1, rl_resetAt = now + 60000\<rparr>))
          else if rl_count entry \<ge> RATE_LIMIT_PER_MINUTE then (False, rl)
          else (True, rl(deviceId \<mapsto> entry\<lparr>rl_count := rl_count entry + 1\<rparr>)))"

definition ingest_error :: "nat \<Rightarrow> string \<Rightarrow> ingest_response" where
  "ingest_error st code =
     \<lparr>r_status = st, r_code = Some code, r_retry_after = None, r_accepted = None\<rparr>"

text \<open>
  \<^verbatim>\<open>req.headers.get('x-ghost-device') || batch.deviceFingerprint || 'unknown'\<close>
\<close>

definition device_key :: "string option \<Rightarrow> string option \<Rightarrow> string" where
  "device_key hdr fp = (if truthy hdr then the hdr else or_else fp ''unknown'')"

definition ingest_serve :: "'e ingest_state \<Rightarrow> 'e ingest_call \<Rightarrow> ingest_response \<times> 'e ingest_state" where
  "ingest_serve s c =
     (if c_method c = ''OPTIONS''
      then (\<lparr>r_status = 200, r_code = None, r_retry_after = None, r_accepted = None\<rparr>, s)
      else if c_method c \<noteq> ''POST'' then (ingest_error 405 ''METHOD_NOT_ALLOWED'', s)
      else
        case c_body c of
          None \<Rightarrow> (ingest_error 500 ''INTERNAL_ERROR'', s)
        | Some batch \<Rightarrow>
           (case b_events batch of
              None \<Rightarrow> (ingest_error 400 ''INVALID_BATCH'', s)
            | Some events \<Rightarrow>
                if length events > MAX_BATCH_SIZE then (ingest_error 400 ''BATCH_TOO_LARGE'', s)
                else
                  let deviceId = device_key (c_device_header c) (b_deviceFingerprint batch);
                      (ok, rl) = checkRateLimit (c_now c) deviceId (rateLimits s)
                  in
                  if \<not> ok
                  then (\<lparr>r_status = 429, r_code = Some ''RATE_LIMIT_EXCEEDED'',
                         r_retry_after = Some ''60'', r_accepted = None\<rparr>, s\<lparr>rateLimits := rl\<rparr>)
                  else if c_insertError c \<noteq> None
                  then (ingest_error 500 ''INSERT_FAILED'', s\<lparr>rateLimits := rl\<rparr>)
                  else (\<lparr>r_status = 202, r_code = None, r_retry_after = None,
                         r_accepted = Some (length events)\<rparr>,
                        s\<lparr>rateLimits := rl,
                          secure_events := secure_events s @ map (\<lambda>e. (deviceId, e)) events\<rparr>)))"

text \<open>A run of the service: the calls in arrival order, the responses in the same order.\<close>

fun ingest_run :: "'e ingest_state \<Rightarrow> 'e ingest_call list \<Rightarrow> ingest_response list \<times> 'e ingest_state" where
  "ingest_run s [] = ([], s)"
| "ingest_run s (c # cs) =
     (let (r, s1) = ingest_serve s c; (rs, s2) = ingest_run s1 cs in (r # rs, s2))"

definition ingest_init :: "'e ingest_state" where
  "ingest_init = \<lparr>rateLimits = Map.empty, secure_events = []\<rparr>"

text \<open>A POST of \<open>k\<close> copies of one event from device \<open>dev\<close> at clock reading \<open>t\<close>.\<close>

definition post_batch :: "int \<Rightarrow> string \<Rightarrow> nat \<Rightarrow> 'e \<Rightarrow> 'e ingest_call" where
  "post_batch t dev k e =
     \<lparr>c_now = t, c_insertError = None, c_method = ''POST'', c_device_header = Some dev,
      c_body = Some \<lparr>b_events = Some (replicate k e), b_deviceFingerprint = Some dev,
                     b_batchId = ''b''\<rparr>\<rparr>"


section \<open>Governance: the approve-ghost handler\<close>

text \<open>
  The handler of \<^verbatim>\<open>/approve-ghost\<close> (second part of
  \<^verbatim>\<open>supabase/migrations/002_governance.sql\<close>). Statuses and actions are the string
  literals of the source. Opaque JSONB columns (plan, parameters, trigger) are kept as
  strings. The store is a record of tables; \<^verbatim>\<open>ghosts\<close> is keyed by its primary key,
  \<^verbatim>\<open>ghost_versions\<close> carries \<^verbatim>\<open>UNIQUE(ghost_id, version)\<close>, so an insert that
  repeats a pair is refused by the store, and the handler never looks at that insert's
  error. The answer of the store to the \<^verbatim>\<open>ghosts\<close> update is an input
  (\<open>updateErr\<close>), as is the clock (\<open>now\<close>). A field of the request body that
  the handler passes on as it came is absent, \<^verbatim>\<open>null\<close> or a string: the store's client
  leaves an absent field out of an update, and writes \<^verbatim>\<open>null\<close> for a null one.
\<close>

datatype 'a js_opt = JUndefined | JNull | JVal 'a

text \<open>\<^verbatim>\<open>field || d\<close> on such a field.\<close>

definition js_or :: "string js_opt \<Rightarrow> string \<Rightarrow> string" where
  "js_or field d = (case field of JVal s \<Rightarrow> (if s = [] then d else s) | _ \<Rightarrow> d)"

record ghost =
  ghost_name :: string
  ghost_version :: int
  ghost_status :: string
  ghost_is_active :: bool
  ghost_execution_plan :: string
  ghost_parameters :: string
  ghost_trigger :: string
  ghost_updated_at :: string

record ghost_version_row =
  gv_ghost_id :: string
  gv_version :: int
  gv_execution_plan :: string
  gv_parameters :: string
  gv_trigger :: string
  gv_change_description :: string
  gv_created_by :: string

record approval_request =
  ar_ghost_id :: string
  ar_status :: string
  ar_approved_by :: "string option"
  ar_decision_note :: "string option"
  ar_resolved_at :: "string option"

record store =
  ghosts :: "string \<rightharpoonup> ghost"
  ghost_versions :: "ghost_version_row list"
  approval_requests :: "approval_request list"

record approve_request =
  req_ghost_id :: "string option"
  req_action :: "string option"
  req_decision_note :: "string js_opt"
  req_approved_by :: "string option"

record approve_response =
  resp_status :: nat
  resp_error :: "string option"
  resp_new_status :: "string option"
  resp_version :: "int option"

definition statusMap :: "string \<Rightarrow> string" where
  "statusMap action =
     (if action = ''approve'' then ''approved''
      else if action = ''reject'' then ''archived''
      else if action = ''pause'' then ''paused''
      else if action = ''activate'' then ''active''
      else ''archived'')"

definition error_response :: "nat \<Rightarrow> string \<Rightarrow> approve_response" where
  "error_response code msg =
     \<lparr>resp_status = code, resp_error = Some msg, resp_new_status = None, resp_version = None\<rparr>"

text \<open>Insert into \<^verbatim>\<open>ghost_versions\<close> under \<^verbatim>\<open>UNIQUE(ghost_id, version)\<close>.\<close>

definition insert_ghost_version :: "ghost_version_row \<Rightarrow> ghost_version_row list \<Rightarrow> ghost_version_row list" where
  "insert_ghost_version r rows =
     (if list_ex (\<lambda>q. gv_ghost_id q = gv_ghost_id r \<and> gv_version q = gv_version r) rows
      then rows else rows @ [r])"

definition resolve_requests ::
  "string \<Rightarrow> string \<Rightarrow> approve_request \<Rightarrow> string \<Rightarrow> approval_request list \<Rightarrow> approval_request list" where
  "resolve_requests gid action rq now rows =
     map (\<lambda>a. if ar_ghost_id a = gid \<and> ar_status a = ''pending''
               then a\<lparr>ar_status := (if action = ''approve'' then ''approved'' else ''rejected''),
                      ar_approved_by := Some (or_else (req_approved_by rq) ''system''),
                      ar_decision_note := (case req_decision_note rq of
                                             JUndefined \<Rightarrow> ar_decision_note a
                                           | JNull \<Rightarrow> None
                                           | JVal s \<Rightarrow> Some s),
                      ar_resolved_at := Some now\<rparr>
               else a) rows"

definition approve_ghost ::
  "string \<Rightarrow> string option \<Rightarrow> store \<Rightarrow> approve_request \<Rightarrow> approve_response \<times> store" where
  "approve_ghost now updateErr db rq =
     (if \<not> truthy (req_ghost_id rq) \<or> \<not> truthy (req_action rq)
      then (error_response 400 ''ghost_id and action are required'', db)
      else
        let gid = the (req_ghost_id rq); action = the (req_action rq) in
        if action \<notin> set [''approve'', ''reject'', ''pause'', ''activate'', ''archive'']
        then (error_response 400 ''Invalid action. Must be: approve, reject, pause, activate, archive'', db)
        else
          case ghosts db gid of
            None \<Rightarrow> (error_response 404 ''Ghost not found'', db)
          | Some g \<Rightarrow>
              let newStatus = statusMap action;
                  isActive = (action = ''approve'' \<or> action = ''activate'');
                  newVersion = (if action = ''approve'' then ghost_version g + 1 else ghost_version g)
              in
              if updateErr \<noteq> None
              then (error_response 500 ''Failed to update ghost'', db)
              else
                let db1 = db\<lparr>ghosts := (ghosts db)(gid \<mapsto>
                            g\<lparr>ghost_status := newStatus, ghost_is_active := isActive,
                              ghost_version := newVersion, ghost_updated_at := now\<rparr>)\<rparr>;
                    db2 = (if action = ''approve''
                           then db1\<lparr>ghost_versions := insert_ghost_version
                                  \<lparr>gv_ghost_id = gid, gv_version = ghost_version g + 1,
                                   gv_execution_plan = ghost_execution_plan g,
                                   gv_parameters = ghost_parameters g,
                                   gv_trigger = ghost_trigger g,
                                   gv_change_description = js_or (req_decision_note rq) ''Approved'',
                                   gv_created_by = or_else (req_approved_by rq) ''system''\<rparr>
                                  (ghost_versions db1)\<rparr>
                           else db1);
                    db3 = db2\<lparr>approval_requests :=
                                 resolve_requests gid action rq now (approval_requests db2)\<rparr>
                in (\<lparr>resp_status = 200, resp_error = None, resp_new_status = Some newStatus,
                     resp_version = Some newVersion\<rparr>, db3))"

text \<open>A request to approve ghost \<open>gid\<close>, as the dashboard sends it.\<close>

definition approve_req :: "string \<Rightarrow> approve_request" where
  "approve_req gid =
     \<lparr>req_ghost_id = Some gid, req_action = Some ''approve'',
      req_decision_note = JUndefined, req_approved_by = Some ''dashboard_user''\<rparr>"

text \<open>The same request as the mobile client sends it.\<close>

definition mobile_approve_req :: "string \<Rightarrow> approve_request" where
  "mobile_approve_req gid =
     \<lparr>req_ghost_id = Some gid, req_action = Some ''approve'',
      req_decision_note = JUndefined, req_approved_by = Some ''mobile_user''\<rparr>"

definition sample_ghost :: "int \<Rightarrow> string \<Rightarrow> ghost" where
  "sample_ghost v st =
     \<lparr>ghost_name = ''Invoice filing'', ghost_version = v, ghost_status = st,
      ghost_is_active = False, ghost_execution_plan = ''[]'', ghost_parameters = ''[]'',
      ghost_trigger = ''{}'', ghost_updated_at = ''2024-01-01T00:00:00.000Z''\<rparr>"

definition sample_store :: "int \<Rightarrow> string \<Rightarrow> store" where
  "sample_store v st =
     \<lparr>ghosts = [''g1'' \<mapsto> sample_ghost v st], ghost_versions = [], approval_requests = []\<rparr>"


section \<open>Execution engine\<close>

text \<open>
  The handler of \<^verbatim>\<open>ghost-executor\<close> with \<^verbatim>\<open>createExecutionPlan\<close>,
  \<^verbatim>\<open>executeNode\<close> and \<^verbatim>\<open>attemptSelfHealing\<close>. What lies outside the repository is an
  input of the model: the outcome of \<^verbatim>\<open>fetch\<close> in \<^verbatim>\<open>executeApiCall\<close>, the outcome
  of \<^verbatim>\<open>llm.complete\<close>, and \<^verbatim>\<open>JSON.parse\<close> read at the two types the code uses its
  result at. An outcome is \<open>Inl msg\<close> when the call throws. The two effectful ports take
  the number of external calls made so far (\<open>tick\<close>), so that two calls with equal
  arguments may answer differently. Node parameters are a list of key and value pairs,
  \<open>None\<close> when the action carries no \<^verbatim>\<open>params\<close>: reading a property of it then throws
  a \<^verbatim>\<open>TypeError\<close> inside the \<^verbatim>\<open>try\<close> of \<^verbatim>\<open>executeNode\<close>.
  Durations (differences of clock readings) are not kept in a step record.
\<close>

record action =
  tool :: string
  params :: "(string \<times> string) list option"

record ExecutionNode =
  node_id :: string
  node_type :: string
  node_action :: "action option"

record StepResult =
  sr_nodeId :: string
  sr_status :: string
  sr_strategy :: string
  sr_output :: "string option"
  sr_error :: "string option"

text \<open>The row of \<^verbatim>\<open>ghosts\<close> as the executor reads it; the plan is \<open>None\<close> when
  the column holds no array.\<close>

record ghost_row =
  gr_org_id :: string
  gr_name :: string
  gr_status :: string
  gr_execution_plan :: "ExecutionNode list option"

text \<open>The object the repair prompt asks for: \<^verbatim>\<open>{tool, params}\<close>.\<close>

record alternative =
  alt_tool :: string
  alt_params :: "(string \<times> string) list option"

datatype llm_prompt =
    PlannerPrompt ghost_row string
  | HealPrompt ExecutionNode "string option" string

record exec_env =
  env_fetch :: "nat \<Rightarrow> (string \<times> string) list \<Rightarrow> string + string"
  env_llm :: "nat \<Rightarrow> llm_prompt \<Rightarrow> string + string option"
  env_parse_plan :: "string \<Rightarrow> ExecutionNode list option"
  env_parse_alternative :: "string \<Rightarrow> alternative option"

text \<open>
  \<^verbatim>\<open>content.match(/\[[\s\S]*\]/)\<close> and \<^verbatim>\<open>content.match(/\{[\s\S]*\}/)\<close>: the match
  runs from the first opening delimiter to the last closing delimiter after it.
\<close>

definition match_delims :: "char \<Rightarrow> char \<Rightarrow> string \<Rightarrow> string option" where
  "match_delims l r s =
     (case dropWhile (\<lambda>c. c \<noteq> l) s of
        [] \<Rightarrow> None
      | _ # rest \<Rightarrow>
          (case rev (dropWhile (\<lambda>c. c \<noteq> r) (rev rest)) of
             [] \<Rightarrow> None
           | u \<Rightarrow> Some (l # u)))"

definition default_plan :: "ExecutionNode list" where
  "default_plan =
     [\<lparr>node_id = ''step_1'', node_type = ''action'',
       node_action = Some \<lparr>tool = ''human_escalation'',
         params = Some [(''reason'', ''Could not generate execution plan automatically'')]\<rparr>\<rparr>]"

definition createExecutionPlan ::
  "exec_env \<Rightarrow> nat \<Rightarrow> ghost_row \<Rightarrow> string \<Rightarrow> string + (ExecutionNode list \<times> nat)" where
  "createExecutionPlan env tick ghost parameters =
     (case gr_execution_plan ghost of
        Some plan \<Rightarrow> Inr (plan, tick)
      | None \<Rightarrow>
          (case env_llm env tick (PlannerPrompt ghost parameters) of
             Inl err \<Rightarrow> Inl err
           | Inr content \<Rightarrow>
               if truthy content
               then (case match_delims CHR ''['' CHR '']'' (the content) of
                       None \<Rightarrow> Inr (default_plan, Suc tick)
                     | Some m \<Rightarrow>
                         (case env_parse_plan env m of
                            None \<Rightarrow> Inr (default_plan, Suc tick)
                          | Some plan \<Rightarrow> Inr (plan, Suc tick)))
               else Inr (default_plan, Suc tick)))"

text \<open>The message of the \<^verbatim>\<open>TypeError\<close> for a property read on \<^verbatim>\<open>undefined\<close>, and
  for destructuring it, in the wording of V8.\<close>

definition read_undefined :: "string \<Rightarrow> string" where
  "read_undefined prop =
     ''Cannot read properties of undefined (reading '' @ [CHR 0x27] @ prop @ [CHR 0x27] @ '')''"

definition destructure_undefined :: "string \<Rightarrow> string \<Rightarrow> string" where
  "destructure_undefined prop var =
     ''Cannot destructure property '' @ [CHR 0x27] @ prop @ [CHR 0x27] @ '' of ''
       @ [CHR 0x27] @ var @ [CHR 0x27] @ '' as it is undefined.''"

definition failed_step :: "ExecutionNode \<Rightarrow> string \<Rightarrow> StepResult" where
  "failed_step node err =
     \<lparr>sr_nodeId = node_id node, sr_status = ''failed'', sr_strategy = ''direct'',
      sr_output = None, sr_error = Some err\<rparr>"

definition executeNode :: "exec_env \<Rightarrow> nat \<Rightarrow> ExecutionNode \<Rightarrow> StepResult \<times> nat" where
  "executeNode env tick node =
     (case node_action node of
        None \<Rightarrow>
          (\<lparr>sr_nodeId = node_id node, sr_status = ''skipped'', sr_strategy = ''none'',
            sr_output = None, sr_error = None\<rparr>, tick)
      | Some a \<Rightarrow>
          if tool a = ''api_call''
          then (case params a of
                  None \<Rightarrow> (failed_step node (destructure_undefined ''endpoint'' ''params''), tick)
                | Some ps \<Rightarrow>
                    (case env_fetch env tick ps of
                       Inl err \<Rightarrow> (failed_step node err, Suc tick)
                     | Inr out \<Rightarrow>
                         (\<lparr>sr_nodeId = node_id node, sr_status = ''completed'', sr_strategy = ''api'',
                           sr_output = Some out, sr_error = None\<rparr>, Suc tick)))
          else if tool a \<in> set [''navigate_to'', ''click_element'', ''input_text'', ''extract_data'']
          then (case params a of
                  None \<Rightarrow> (failed_step node (read_undefined ''selector_strategy''), tick)
                | Some ps \<Rightarrow>
                    (\<lparr>sr_nodeId = node_id node, sr_status = ''completed'',
                      sr_strategy = or_else (map_of ps ''selector_strategy'') ''semantic'',
                      sr_output = Some ''Queued for client-side browser execution'', sr_error = None\<rparr>, tick))
          else if tool a = ''human_escalation''
          then (case params a of
                  None \<Rightarrow> (failed_step node (read_undefined ''reason''), tick)
                | Some ps \<Rightarrow>
                    (\<lparr>sr_nodeId = node_id node, sr_status = ''completed'', sr_strategy = ''human'',
                      sr_output = map_of ps ''reason'', sr_error = None\<rparr>, tick))
          else (\<lparr>sr_nodeId = node_id node, sr_status = ''completed'', sr_strategy = ''unknown'',
                 sr_output = Some (''Unknown tool: '' @ tool a), sr_error = None\<rparr>, tick))"

definition attemptSelfHealing ::
  "exec_env \<Rightarrow> nat \<Rightarrow> ExecutionNode \<Rightarrow> StepResult \<Rightarrow> ghost_row \<Rightarrow> StepResult option \<times> nat" where
  "attemptSelfHealing env tick failedNode failedResult ghost =
     (case env_llm env tick (HealPrompt failedNode (sr_error failedResult) (gr_name ghost)) of
        Inl err \<Rightarrow> (None, Suc tick)
      | Inr content \<Rightarrow>
          if \<not> truthy content then (None, Suc tick)
          else (case match_delims CHR ''{'' CHR ''}'' (the content) of
                  None \<Rightarrow> (None, Suc tick)
                | Some m \<Rightarrow>
                    (case env_parse_alternative env m of
                       None \<Rightarrow> (None, Suc tick)
                     | Some alt \<Rightarrow>
                         let altNode = \<lparr>node_id = node_id failedNode @ ''_healed'',
                                        node_type = ''action'',
                                        node_action = Some \<lparr>tool = alt_tool alt,
                                          params = Some (case alt_params alt of None \<Rightarrow> [] | Some p \<Rightarrow> p)\<rparr>\<rparr>;
                             (altResult, tick') = executeNode env (Suc tick) altNode
                         in (Some (altResult\<lparr>sr_strategy := ''self_healed:'' @ sr_strategy altResult\<rparr>),
                             tick'))))"

text \<open>
  The loop of the handler over the plan. It returns the \<^verbatim>\<open>steps\<close> array, the rows it
  inserted into \<^verbatim>\<open>execution_steps\<close> (one per plan node run, none for a substitute),
  \<^verbatim>\<open>overallStatus\<close> and the tick. After a failed step with no substitute the
  \<^verbatim>\<open>break\<close> leaves the rest of the plan unvisited.
\<close>

fun run_plan ::
  "exec_env \<Rightarrow> ghost_row \<Rightarrow> nat \<Rightarrow> ExecutionNode list \<Rightarrow>
     StepResult list \<times> StepResult list \<times> string \<times> nat" where
  "run_plan env ghost tick [] = ([], [], ''completed'', tick)"
| "run_plan env ghost tick (node # rest) =
     (let (stepResult, t1) = executeNode env tick node in
      if sr_status stepResult = ''failed''
      then (case attemptSelfHealing env t1 node stepResult ghost of
              (Some healResult, t2) \<Rightarrow>
                (let (steps, rows, overall, t3) = run_plan env ghost t2 rest
                 in (stepResult # healResult # steps, stepResult # rows, overall, t3))
            | (None, t2) \<Rightarrow> ([stepResult], [stepResult], ''failed'', t2))
      else (let (steps, rows, overall, t3) = run_plan env ghost t1 rest
            in (stepResult # steps, stepResult # rows, overall, t3)))"

text \<open>\<^verbatim>\<open>[...new Set(xs)]\<close>: the distinct elements in order of first occurrence.\<close>

definition distinct_first :: "'a list \<Rightarrow> 'a list" where
  "distinct_first xs = rev (remdups (rev xs))"

record execution_row =
  ex_id :: string
  ex_ghost_id :: string
  ex_status :: string
  ex_step_count :: "nat option"

record execution_log =
  log_execution_id :: string
  log_ghost_id :: string
  log_org_id :: string
  log_status :: string
  log_steps :: nat
  log_strategies_used :: "string list"

record exec_store =
  st_ghosts :: "string \<rightharpoonup> ghost_row"
  st_executions :: "execution_row list"
  st_execution_steps :: "(string \<times> StepResult) list"
  st_execution_logs :: "execution_log list"

text \<open>The parsed JSON of the request; \<open>None\<close> at the call when \<^verbatim>\<open>req.json()\<close> throws.\<close>

record exec_request =
  xr_ghostId :: "string option"
  xr_parameters :: "string option"
  xr_trigger :: "string option"

record exec_response =
  xs_http :: nat
  xs_code :: "string option"
  xs_status :: "string option"
  xs_steps :: "StepResult list"

definition exec_error :: "nat \<Rightarrow> string \<Rightarrow> exec_response" where
  "exec_error http code = \<lparr>xs_http = http, xs_code = Some code, xs_status = None, xs_steps = []\<rparr>"

definition executor_serve ::
  "exec_env \<Rightarrow> string \<Rightarrow> exec_store \<Rightarrow> string \<Rightarrow> exec_request option \<Rightarrow> exec_response \<times> exec_store" where
  "executor_serve env executionId db meth reqBody =
     (if meth = ''OPTIONS''
      then (\<lparr>xs_http = 200, xs_code = None, xs_status = None, xs_steps = []\<rparr>, db)
      else
        case reqBody of
          None \<Rightarrow> (exec_error 500 ''EXECUTION_ERROR'', db)
        | Some rq \<Rightarrow>
            if \<not> truthy (xr_ghostId rq) then (exec_error 400 ''MISSING_GHOST'', db)
            else
              let ghostId = the (xr_ghostId rq) in
              case st_ghosts db ghostId of
                None \<Rightarrow> (exec_error 404 ''GHOST_NOT_FOUND'', db)
              | Some ghost \<Rightarrow>
                  if gr_status ghost \<noteq> ''approved'' \<and> gr_status ghost \<noteq> ''active''
                  then (exec_error 403 ''GHOST_NOT_APPROVED'', db)
                  else
                    let db1 = db\<lparr>st_executions := st_executions db @
                                [\<lparr>ex_id = executionId, ex_ghost_id = ghostId,
                                  ex_status = ''running'', ex_step_count = None\<rparr>]\<rparr>
                    in
                    case createExecutionPlan env 0 ghost (or_else (xr_parameters rq) ''{}'') of
                      Inl err \<Rightarrow> (exec_error 500 ''EXECUTION_ERROR'', db1)
                    | Inr (plan, t0) \<Rightarrow>
                        let (steps, rows, overallStatus, t1) = run_plan env ghost t0 plan;
                            db2 = db1\<lparr>st_execution_steps := st_execution_steps db1 @
                                         map (\<lambda>r. (executionId, r)) rows\<rparr>;
                            db3 = db2\<lparr>st_executions :=
                                    map (\<lambda>e. if ex_id e = executionId
                                              then e\<lparr>ex_status := overallStatus,
                                                     ex_step_count := Some (length steps)\<rparr>
                                              else e) (st_executions db2)\<rparr>;
                            db4 = db3\<lparr>st_execution_logs := st_execution_logs db3 @
                                    [\<lparr>log_execution_id = executionId, log_ghost_id = ghostId,
                                      log_org_id = gr_org_id ghost, log_status = overallStatus,
                                      log_steps = length steps,
                                      log_strategies_used = distinct_first (map sr_strategy steps)\<rparr>]\<rparr>
                        in (\<lparr>xs_http = 200, xs_code = None, xs_status = Some overallStatus,
                             xs_steps = steps\<rparr>, db4))"


text \<open>
  A substitute step is told from a plan step by the prefix its strategy gets in
  \<^verbatim>\<open>attemptSelfHealing\<close>.
\<close>

definition is_self_healed :: "StepResult \<Rightarrow> bool" where
  "is_self_healed s = (take 12 (sr_strategy s) = ''self_healed:'')"

text \<open>Every step of the record that finished failed is directly followed by a substitute.\<close>

fun all_failed_healed :: "StepResult list \<Rightarrow> bool" where
  "all_failed_healed [] = True"
| "all_failed_healed [s] = (sr_status s \<noteq> ''failed'')"
| "all_failed_healed (s # h # rest) =
     (if sr_status s = ''failed'' then is_self_healed h \<and> all_failed_healed rest
      else all_failed_healed (h # rest))"

text \<open>
  The replan fails: the call of the model throws, or its content is empty, or holds no
  \<^verbatim>\<open>{...}\<close>, or what it holds does not parse.
\<close>

definition replan_fails :: "exec_env \<Rightarrow> nat \<Rightarrow> ExecutionNode \<Rightarrow> StepResult \<Rightarrow> ghost_row \<Rightarrow> bool" where
  "replan_fails env tick failedNode failedResult ghost =
     (case env_llm env tick (HealPrompt failedNode (sr_error failedResult) (gr_name ghost)) of
        Inl err \<Rightarrow> True
      | Inr content \<Rightarrow>
          \<not> truthy content \<or>
          (case match_delims CHR ''{'' CHR ''}'' (the content) of
             None \<Rightarrow> True
           | Some m \<Rightarrow> env_parse_alternative env m = None))"

text \<open>
  Scenario 6 of the specification: the one plan node is an API call whose upstream throws,
  and the model answers the repair prompt with a human escalation.
\<close>

definition broken_plan :: "ExecutionNode list" where
  "broken_plan =
     [\<lparr>node_id = ''s1'', node_type = ''action'',
       node_action = Some \<lparr>tool = ''api_call'',
         params = Some [(''endpoint'', ''https://broken''), (''method'', ''GET'')]\<rparr>\<rparr>]"

definition heal_text :: string where
  "heal_text = ''{tool: human_escalation, params: {reason: upstream unavailable}}''"

definition broken_env :: exec_env where
  "broken_env =
     \<lparr>env_fetch = (\<lambda>tick p. Inl ''connection refused''),
      env_llm = (\<lambda>tick p. case p of
                   PlannerPrompt g ps \<Rightarrow> Inl ''OpenAI API error 500''
                 | HealPrompt n e g \<Rightarrow> Inr (Some heal_text)),
      env_parse_plan = (\<lambda>s. None),
      env_parse_alternative = (\<lambda>s. if s = heal_text
         then Some \<lparr>alt_tool = ''human_escalation'',
                    alt_params = Some [(''reason'', ''upstream unavailable'')]\<rparr>
         else None)\<rparr>"

definition exec_store0 :: "ExecutionNode list option \<Rightarrow> exec_store" where
  "exec_store0 plan =
     \<lparr>st_ghosts = [''g1'' \<mapsto> \<lparr>gr_org_id = ''o1'', gr_name = ''Invoice filing'',
                                gr_status = ''approved'', gr_execution_plan = plan\<rparr>],
      st_executions = [], st_execution_steps = [], st_execution_logs = []\<rparr>"

definition exec_req0 :: exec_request where
  "exec_req0 = \<lparr>xr_ghostId = Some ''g1'', xr_parameters = None, xr_trigger = None\<rparr>"

text \<open>The same surroundings with a model that cannot be reached at all.\<close>

definition dead_env :: exec_env where
  "dead_env = broken_env\<lparr>env_llm := (\<lambda>tick p. Inl ''timeout'')\<rparr>"

definition ghost0 :: ghost_row where
  "ghost0 = \<lparr>gr_org_id = ''o1'', gr_name = ''Invoice filing'',
             gr_status = ''approved'', gr_execution_plan = Some broken_plan\<rparr>"


section \<open>Raw events and the intent encoder\<close>

text \<open>
  \<^verbatim>\<open>RawEvent\<close> and \<^verbatim>\<open>ElementFingerprint\<close> with the fields the privacy pipeline reads;
  an optional field is an option. JavaScript numbers are real numbers here, except where
  the code computes on integers. \<^verbatim>\<open>IntentEncoder.classify\<close> follows.
\<close>

record VisualPosition =
  relativeX :: real
  relativeY :: real

record ElementFingerprint =
  aria_role :: "string option"
  textPreview :: string
  position :: "VisualPosition option"
  domPath :: "string list"
  tagName :: string
  inputType :: "string option"
  formId :: "string option"

record MutationSummary =
  m_target :: ElementFingerprint
  addedNodes :: int
  removedNodes :: int
  oldValue :: "string option"
  newValue :: "string option"

record RawEvent =
  eventType :: string
  p_action :: "string option"
  p_target :: "ElementFingerprint option"
  p_value :: "string option"
  p_mutations :: "MutationSummary list option"
  p_url :: "string option"
  p_method :: "string option"
  p_statusCode :: "int option"
  p_message :: "string option"
  ctx_url :: string

text \<open>\<^verbatim>\<open>s.includes(sub)\<close>\<close>

fun str_includes :: "string \<Rightarrow> string \<Rightarrow> bool" where
  "str_includes [] sub = (sub = [])"
| "str_includes (c # cs) sub = (take (length sub) (c # cs) = sub \<or> str_includes cs sub)"

definition toUpperCase :: "string \<Rightarrow> string" where
  "toUpperCase s = map toUpperCase_char s"

definition classifyUserInteraction :: "RawEvent \<Rightarrow> string \<times> real" where
  "classifyUserInteraction event =
     (let action = p_action event;
          target = p_target event;
          tag = (case target of None \<Rightarrow> [] | Some t \<Rightarrow> tagName t);
          role = (case target of None \<Rightarrow> [] | Some t \<Rightarrow> or_else (aria_role t) []);
          itype = (case target of None \<Rightarrow> [] | Some t \<Rightarrow> or_else (inputType t) [])
      in
      if action = Some ''input'' \<or> action = Some ''paste''
      then (if itype = ''password'' \<or> itype = ''email''
            then (''authentication'', 0.85) else (''data_entry'', 0.9))
      else if action = Some ''navigate'' then (''navigation'', 0.95)
      else if action = Some ''click'' \<and> tag = ''a'' then (''navigation'', 0.85)
      else if action = Some ''click'' \<and> (tag = ''button'' \<or> role = ''button'' \<or> itype = ''submit'')
      then (if (case target of None \<Rightarrow> False | Some t \<Rightarrow> truthy (formId t))
            then (''data_entry'', 0.8) else (''workflow_transition'', 0.7))
      else if action = Some ''click'' \<and> (itype = ''checkbox'' \<or> itype = ''radio'')
      then (''configuration'', 0.75)
      else if action = Some ''select'' then (''data_entry'', 0.85)
      else if action = Some ''copy'' then (''data_extraction'', 0.8)
      else if action = Some ''scroll'' then (''research'', 0.5)
      else if action = Some ''focus'' then (''navigation'', 0.4)
      else (''unknown'', 0.2))"

definition classifyDomMutation :: "RawEvent \<Rightarrow> string \<times> real" where
  "classifyDomMutation event =
     (let mutations = (case p_mutations event of None \<Rightarrow> [] | Some ms \<Rightarrow> ms) in
      if length mutations = 0 then (''unknown'', 0.1)
      else
        let totalNodes = fold (\<lambda>m sum. sum + addedNodes m + removedNodes m) mutations 0 in
        if totalNodes > 20 then (''navigation'', 0.6)
        else
          let formMutations = filter (\<lambda>m. tagName (m_target m) \<in> set [''input'', ''textarea'', ''select'']
                                          \<or> formId (m_target m) \<noteq> None) mutations
          in if length formMutations > 0 then (''data_entry'', 0.5)
             else (''workflow_transition'', 0.4))"

definition classifyNetworkEvent :: "RawEvent \<Rightarrow> string \<times> real" where
  "classifyNetworkEvent event =
     (let meth = or_else (map_option toUpperCase (p_method event)) ''GET'';
          url = or_else (p_url event) [];
          status = (case p_statusCode event of None \<Rightarrow> 0 | Some c \<Rightarrow> c)
      in
      if meth = ''POST'' \<or> meth = ''PUT'' \<or> meth = ''PATCH''
      then (if str_includes url ''auth'' \<or> str_includes url ''login'' \<or> str_includes url ''token''
            then (''authentication'', 0.85)
            else if str_includes url ''message'' \<or> str_includes url ''email'' \<or> str_includes url ''send''
            then (''communication'', 0.75)
            else (''data_entry'', 0.7))
      else if meth = ''DELETE'' then (''workflow_transition'', 0.7)
      else if str_includes url ''search'' \<or> str_includes url ''query'' then (''research'', 0.7)
      else if str_includes url ''export'' \<or> str_includes url ''download'' then (''data_extraction'', 0.75)
      else if status \<ge> 400 then (''error_handling'', 0.6)
      else (''navigation'', 0.4))"

definition classify :: "RawEvent \<Rightarrow> string \<times> real" where
  "classify event =
     (if eventType event = ''user_int'' then classifyUserInteraction event
      else if eventType event = ''dom_mut'' then classifyDomMutation event
      else if eventType event = ''network'' then classifyNetworkEvent event
      else if eventType event = ''error'' then (''error_handling'', 0.9)
      else (''unknown'', 0.1))"

subsection \<open>The decision table of the specification\<close>

text \<open>
  The table of section 4.C, row by row in its order and in its words. A row is an
  observation on the event, a label and a confidence; the first row whose observation
  holds decides. The observations read the event through the accessors below; the method
  of a network event is taken in upper case, \<^verbatim>\<open>GET\<close> when absent.
\<close>

type_synonym table_row = "(RawEvent \<Rightarrow> bool) \<times> string \<times> real"

definition ev_action :: "RawEvent \<Rightarrow> string \<Rightarrow> bool" where
  "ev_action e a = (eventType e = ''user_int'' \<and> p_action e = Some a)"

definition ev_tag :: "RawEvent \<Rightarrow> string" where
  "ev_tag e = (case p_target e of None \<Rightarrow> [] | Some t \<Rightarrow> tagName t)"

definition ev_role :: "RawEvent \<Rightarrow> string" where
  "ev_role e = (case p_target e of None \<Rightarrow> [] | Some t \<Rightarrow> or_else (aria_role t) [])"

definition ev_inputType :: "RawEvent \<Rightarrow> string" where
  "ev_inputType e = (case p_target e of None \<Rightarrow> [] | Some t \<Rightarrow> or_else (inputType t) [])"

definition ev_in_form :: "RawEvent \<Rightarrow> bool" where
  "ev_in_form e = (case p_target e of None \<Rightarrow> False | Some t \<Rightarrow> truthy (formId t))"

definition ev_mutations :: "RawEvent \<Rightarrow> MutationSummary list" where
  "ev_mutations e = (case p_mutations e of None \<Rightarrow> [] | Some ms \<Rightarrow> ms)"

definition ev_total_nodes :: "RawEvent \<Rightarrow> int" where
  "ev_total_nodes e = sum_list (map (\<lambda>m. addedNodes m + removedNodes m) (ev_mutations e))"

definition ev_form_mutation :: "RawEvent \<Rightarrow> bool" where
  "ev_form_mutation e =
     list_ex (\<lambda>m. tagName (m_target m) \<in> set [''input'', ''textarea'', ''select'']
                  \<or> formId (m_target m) \<noteq> None) (ev_mutations e)"

definition ev_method :: "RawEvent \<Rightarrow> string" where
  "ev_method e = or_else (map_option toUpperCase (p_method e)) ''GET''"

definition ev_url_matches :: "RawEvent \<Rightarrow> string list \<Rightarrow> bool" where
  "ev_url_matches e ks = list_ex (str_includes (or_else (p_url e) [])) ks"

definition ev_status :: "RawEvent \<Rightarrow> int" where
  "ev_status e = (case p_statusCode e of None \<Rightarrow> 0 | Some c \<Rightarrow> c)"

definition ev_network :: "RawEvent \<Rightarrow> string list \<Rightarrow> bool" where
  "ev_network e ms = (eventType e = ''network'' \<and> ev_method e \<in> set ms)"

definition spec_table :: "table_row list" where
  "spec_table =
    [(\<lambda>e. ev_action e ''input'' \<and> ev_inputType e \<in> set [''password'', ''email''], ''authentication'', 0.85),
     (\<lambda>e. ev_action e ''input'' \<or> ev_action e ''paste'', ''data_entry'', 0.90),
     (\<lambda>e. ev_action e ''navigate'', ''navigation'', 0.95),
     (\<lambda>e. ev_action e ''click'' \<and> ev_tag e = ''a'', ''navigation'', 0.85),
     (\<lambda>e. ev_action e ''click'' \<and> (ev_tag e = ''button'' \<or> ev_role e = ''button'') \<and> ev_in_form e,
        ''data_entry'', 0.80),
     (\<lambda>e. ev_action e ''click'' \<and> (ev_tag e = ''button'' \<or> ev_role e = ''button'') \<and> \<not> ev_in_form e,
        ''workflow_transition'', 0.70),
     (\<lambda>e. ev_action e ''click'' \<and> ev_inputType e \<in> set [''checkbox'', ''radio''], ''configuration'', 0.75),
     (\<lambda>e. ev_action e ''select'', ''data_entry'', 0.85),
     (\<lambda>e. ev_action e ''copy'', ''data_extraction'', 0.80),
     (\<lambda>e. ev_action e ''scroll'', ''research'', 0.50),
     (\<lambda>e. ev_action e ''focus'', ''navigation'', 0.40),
     (\<lambda>e. eventType e = ''dom_mut'' \<and> ev_total_nodes e > 20, ''navigation'', 0.60),
     (\<lambda>e. eventType e = ''dom_mut'' \<and> ev_form_mutation e, ''data_entry'', 0.50),
     (\<lambda>e. ev_network e [''POST'', ''PUT'', ''PATCH''] \<and> ev_url_matches e [''auth'', ''login'', ''token''],
        ''authentication'', 0.85),
     (\<lambda>e. ev_network e [''POST'', ''PUT'', ''PATCH''] \<and> ev_url_matches e [''message'', ''email'', ''send''],
        ''communication'', 0.75),
     (\<lambda>e. ev_network e [''POST'', ''PUT'', ''PATCH''], ''data_entry'', 0.70),
     (\<lambda>e. ev_network e [''DELETE''], ''workflow_transition'', 0.70),
     (\<lambda>e. ev_network e [''GET''] \<and> ev_url_matches e [''search'', ''query''], ''research'', 0.70),
     (\<lambda>e. ev_network e [''GET''] \<and> ev_url_matches e [''export'', ''download''], ''data_extraction'', 0.75),
     (\<lambda>e. eventType e = ''network'' \<and> ev_status e \<ge> 400, ''error_handling'', 0.60),
     (\<lambda>e. eventType e = ''error'', ''error_handling'', 0.90)]"

definition first_match :: "table_row list \<Rightarrow> RawEvent \<Rightarrow> (string \<times> real) option" where
  "first_match table e = map_option snd (find (\<lambda>row. fst row e) table)"

text \<open>The claim on one event: the first matching row decides, and an event that matches
  no row is unknown with a confidence between 0.10 and 0.20.\<close>

definition follows_table :: "table_row list \<Rightarrow> RawEvent \<Rightarrow> bool" where
  "follows_table table e =
     (case first_match table e of
        Some lc \<Rightarrow> classify e = lc
      | None \<Rightarrow> fst (classify e) = ''unknown'' \<and> 0.10 \<le> snd (classify e) \<and> snd (classify e) \<le> 0.20)"

text \<open>
  The table the code implements. It differs from the table of the specification in five
  places: the first row also takes paste; the two button rows also take a click on an
  input of type submit; a DOM-mutation event with at least one mutation that matches
  neither of its rows is a workflow transition; the two URL rows of GET take every method
  other than POST, PUT, PATCH and DELETE; and a network event that matches no other row
  is a navigation.
\<close>

definition ev_button :: "RawEvent \<Rightarrow> bool" where
  "ev_button e = (ev_tag e = ''button'' \<or> ev_role e = ''button'' \<or> ev_inputType e = ''submit'')"

definition ev_other_method :: "RawEvent \<Rightarrow> bool" where
  "ev_other_method e =
     (eventType e = ''network'' \<and> ev_method e \<notin> set [''POST'', ''PUT'', ''PATCH'', ''DELETE''])"

definition code_table :: "table_row list" where
  "code_table =
    [(\<lambda>e. (ev_action e ''input'' \<or> ev_action e ''paste'') \<and> ev_inputType e \<in> set [''password'', ''email''],
        ''authentication'', 0.85),
     (\<lambda>e. ev_action e ''input'' \<or> ev_action e ''paste'', ''data_entry'', 0.90),
     (\<lambda>e. ev_action e ''navigate'', ''navigation'', 0.95),
     (\<lambda>e. ev_action e ''click'' \<and> ev_tag e = ''a'', ''navigation'', 0.85),
     (\<lambda>e. ev_action e ''click'' \<and> ev_button e \<and> ev_in_form e, ''data_entry'', 0.80),
     (\<lambda>e. ev_action e ''click'' \<and> ev_button e \<and> \<not> ev_in_form e, ''workflow_transition'', 0.70),
     (\<lambda>e. ev_action e ''click'' \<and> ev_inputType e \<in> set [''checkbox'', ''radio''], ''configuration'', 0.75),
     (\<lambda>e. ev_action e ''select'', ''data_entry'', 0.85),
     (\<lambda>e. ev_action e ''copy'', ''data_extraction'', 0.80),
     (\<lambda>e. ev_action e ''scroll'', ''research'', 0.50),
     (\<lambda>e. ev_action e ''focus'', ''navigation'', 0.40),
     (\<lambda>e. eventType e = ''dom_mut'' \<and> ev_total_nodes e > 20, ''navigation'', 0.60),
     (\<lambda>e. eventType e = ''dom_mut'' \<and> ev_form_mutation e, ''data_entry'', 0.50),
     (\<lambda>e. eventType e = ''dom_mut'' \<and> ev_mutations e \<noteq> [], ''workflow_transition'', 0.40),
     (\<lambda>e. ev_network e [''POST'', ''PUT'', ''PATCH''] \<and> ev_url_matches e [''auth'', ''login'', ''token''],
        ''authentication'', 0.85),
     (\<lambda>e. ev_network e [''POST'', ''PUT'', ''PATCH''] \<and> ev_url_matches e [''message'', ''email'', ''send''],
        ''communication'', 0.75),
     (\<lambda>e. ev_network e [''POST'', ''PUT'', ''PATCH''], ''data_entry'', 0.70),
     (\<lambda>e. ev_network e [''DELETE''], ''workflow_transition'', 0.70),
     (\<lambda>e. ev_other_method e \<and> ev_url_matches e [''search'', ''query''], ''research'', 0.70),
     (\<lambda>e. ev_other_method e \<and> ev_url_matches e [''export'', ''download''], ''data_extraction'', 0.75),
     (\<lambda>e. eventType e = ''network'' \<and> ev_status e \<ge> 400, ''error_handling'', 0.60),
     (\<lambda>e. eventType e = ''network'', ''navigation'', 0.40),
     (\<lambda>e. eventType e = ''error'', ''error_handling'', 0.90)]"

text \<open>Sample events: typing, pasting and clicking on a password field, and a plain GET.\<close>

definition password_field :: ElementFingerprint where
  "password_field =
     \<lparr>aria_role = None, textPreview = [], position = Some \<lparr>relativeX = 0.5, relativeY = 0.25\<rparr>,
      domPath = [''body'', ''form'', ''input''], tagName = ''input'',
      inputType = Some ''password'', formId = Some ''login''\<rparr>"

definition user_event :: "string \<Rightarrow> RawEvent" where
  "user_event a =
     \<lparr>eventType = ''user_int'', p_action = Some a, p_target = Some password_field,
      p_value = Some ''hunter2'', p_mutations = None, p_url = None, p_method = None,
      p_statusCode = None, p_message = None, ctx_url = ''https://example.com/login''\<rparr>"

definition plain_get :: RawEvent where
  "plain_get =
     \<lparr>eventType = ''network'', p_action = None, p_target = None, p_value = None,
      p_mutations = None, p_url = Some ''https://example.com/home'', p_method = Some ''GET'',
      p_statusCode = Some 200, p_message = None, ctx_url = ''https://example.com/home''\<rparr>"


section \<open>Differential privacy unit: the session fingerprint\<close>

text \<open>
  \<^verbatim>\<open>DifferentialPrivacy.generateSessionFingerprint\<close>. The platform's HMAC-SHA256
  (\<^verbatim>\<open>crypto.subtle.importKey\<close> and \<^verbatim>\<open>sign\<close>) is an input of the model: \<open>hmac key msg\<close>
  is \<open>Some\<close> signature, a list of bytes, or \<open>None\<close> when the platform rejects the
  call (Web Crypto refuses to import a key of no bytes), and then the promise of
  \<^verbatim>\<open>generateSessionFingerprint\<close> is rejected. \<^verbatim>\<open>sessionStart\<close> is a clock reading in
  whole milliseconds, an integer, and the template literal prints an integer in decimal
  (the exponent notation of numbers from \<open>10\<^sup>2\<^sup>1\<close> on is out of the range of a clock).
  \<^verbatim>\<open>TextEncoder\<close> is UTF-8: a code unit below 128 is one byte, one from 128 to 255
  is two.
\<close>

type_synonym hmac_port = "8 word list \<Rightarrow> 8 word list \<Rightarrow> 8 word list option"

definition int_to_string :: "int \<Rightarrow> string" where
  "int_to_string n = (if n < 0 then ''-'' @ decimal (nat (- n)) else decimal (nat n))"

definition utf8_char :: "char \<Rightarrow> 8 word list" where
  "utf8_char c =
     (if (of_char c :: nat) < 128 then [of_nat (of_char c)]
      else [of_nat (192 + of_char c div 64), of_nat (128 + of_char c mod 64)])"

definition encode :: "string \<Rightarrow> 8 word list" where
  "encode s = concat (map utf8_char s)"

definition hex_digit :: "nat \<Rightarrow> char" where
  "hex_digit d = ''0123456789abcdef'' ! d"

text \<open>\<^verbatim>\<open>b.toString(16).padStart(2, '0')\<close>\<close>

definition hex_byte :: "8 word \<Rightarrow> string" where
  "hex_byte b = [hex_digit (unat b div 16), hex_digit (unat b mod 16)]"

definition fingerprint_data :: "string \<Rightarrow> string \<Rightarrow> int \<Rightarrow> string" where
  "fingerprint_data deviceId userId sessionStart =
     deviceId @ '':'' @ userId @ '':'' @ int_to_string (sessionStart div 900000)"

definition generateSessionFingerprint :: "hmac_port \<Rightarrow> string \<Rightarrow> string \<Rightarrow> int \<Rightarrow> string option" where
  "generateSessionFingerprint hmac deviceId userId sessionStart =
     map_option (\<lambda>signature. concat (map hex_byte signature))
       (hmac (encode deviceId) (encode (fingerprint_data deviceId userId sessionStart)))"







text \<open>A stand-in port that signs a message with the message itself.\<close>

definition echo_hmac :: hmac_port where
  "echo_hmac key msg = Some msg"


section \<open>Temporal intent clustering\<close>

text \<open>
  The handler of \<^verbatim>\<open>pattern-detector\<close> with \<^verbatim>\<open>extractSequences\<close>,
  \<^verbatim>\<open>clusterSequences\<close>, \<^verbatim>\<open>abstractCluster\<close> and
  \<^verbatim>\<open>computeStatisticalConfidence\<close>. Numbers are real numbers: the rounding of binary
  floating point is left out, so a confidence whose exact value lies within a rounding
  error of a half hundredth can round to the other side in the code. A timestamp is kept as
  the instant it denotes, in epoch milliseconds: the strings of the source come from
  \<^verbatim>\<open>Date.toISOString\<close>, and the code itself reads them through
  \<^verbatim>\<open>new Date(...).getTime()\<close>. Outside the repository and so inputs of the model:
  the rows the store returns, the answer of \<^verbatim>\<open>llm.complete\<close> (\<open>Inl\<close> when it throws),
  \<^verbatim>\<open>JSON.parse\<close> read at the fields the code uses, \<^verbatim>\<open>crypto.randomUUID\<close> and the
  clock. The metadata of an event only decorates the prompt and is left out.
\<close>

definition WINDOW_SIZE :: nat where "WINDOW_SIZE = 50"
definition MIN_CLUSTER_SIZE :: nat where "MIN_CLUSTER_SIZE = 3"
definition TEMPORAL_WINDOW_MS :: int where "TEMPORAL_WINDOW_MS = 30 * 60 * 1000"
definition AUTO_SUGGEST_THRESHOLD :: real where "AUTO_SUGGEST_THRESHOLD = 0.85"
definition REVIEW_THRESHOLD :: real where "REVIEW_THRESHOLD = 0.70"

record SecureEvent =
  se_sessionFingerprint :: string
  se_timestampBucket :: int
  se_intentVector :: "real list"
  se_structuralHash :: string
  se_eventType :: string
  se_intentLabel :: string
  se_intentConfidence :: real
  se_sequenceNumber :: int

record EventSequence =
  seq_events :: "SecureEvent list"
  embedding :: "real list"
  seq_timestamp :: int

record Cluster =
  centroid :: "real list"
  members :: "EventSequence list"
  intentLabels :: "string list"

record DetectedPattern =
  dp_id :: string
  dp_orgId :: string
  intentSequence :: "string list"
  structuralHashes :: "string list"
  occurrences :: nat
  dp_confidence :: real
  suggestedName :: string
  suggestedDescription :: string
  firstSeen :: int
  lastSeen :: int

text \<open>\<^verbatim>\<open>Math.round\<close>: to the nearest integer, a half going up.\<close>

definition js_round :: "real \<Rightarrow> real" where
  "js_round x = of_int \<lfloor>x + 1 / 2\<rfloor>"

definition averageVectors :: "real list list \<Rightarrow> real list" where
  "averageVectors vectors =
     (if length vectors = 0 then []
      else
        let dim = length (hd vectors) in
        fold (\<lambda>vec avg. map (\<lambda>i. avg ! i + (if i < length vec then vec ! i else 0) / real (length vectors))
                              [0 ..< dim])
             vectors (replicate dim 0))"

definition cosineSimilarity :: "real list \<Rightarrow> real list \<Rightarrow> real" where
  "cosineSimilarity a b =
     (if length a = 0 \<or> length b = 0 then 0
      else
        let (dot, normA, normB) =
              fold (\<lambda>(x, y) (d, na, nb). (d + x * y, na + x * x, nb + y * y)) (zip a b) (0, 0, 0);
            denom = sqrt normA * sqrt normB
        in if denom = 0 then 0 else dot / denom)"

text \<open>The \<^verbatim>\<open>Map\<close> from session key to events: keys in order of first appearance.\<close>

definition add_to_session ::
  "SecureEvent \<Rightarrow> (string \<times> SecureEvent list) list \<Rightarrow> (string \<times> SecureEvent list) list" where
  "add_to_session e sessions =
     (if se_sessionFingerprint e \<in> set (map fst sessions)
      then map (\<lambda>(k, es). if k = se_sessionFingerprint e then (k, es @ [e]) else (k, es)) sessions
      else sessions @ [(se_sessionFingerprint e, [e])])"

text \<open>\<^verbatim>\<open>xs.slice(a, b)\<close> for \<open>0 \<le> a\<close>.\<close>

definition js_slice :: "nat \<Rightarrow> nat \<Rightarrow> 'a list \<Rightarrow> 'a list" where
  "js_slice a b xs = take (b - a) (drop a xs)"

text \<open>The sequence pushed for a window: its embedding is the mean of the non-empty
  intent vectors, its timestamp the bucket of its first event.\<close>

definition mk_sequence :: "SecureEvent list \<Rightarrow> EventSequence" where
  "mk_sequence window =
     \<lparr>seq_events = window,
      embedding = averageVectors (filter (\<lambda>v. length v > 0) (map se_intentVector window)),
      seq_timestamp = se_timestampBucket (hd window)\<rparr>"

definition session_windows :: "nat \<Rightarrow> SecureEvent list \<Rightarrow> EventSequence list" where
  "session_windows windowSize sessionEvents =
     (let sorted = sort_key se_sequenceNumber sessionEvents in
      concat (map (\<lambda>i.
          let window = js_slice i (min (i + windowSize) (length sorted)) sorted in
          if length window < 3 then [] else [mk_sequence window])
        [0 ..< Suc (length sorted - 3)]))"

definition extractSequences :: "SecureEvent list \<Rightarrow> nat \<Rightarrow> EventSequence list" where
  "extractSequences events windowSize =
     concat (map (\<lambda>(k, sessionEvents). session_windows windowSize sessionEvents)
                 (fold add_to_session events []))"

definition joins :: "EventSequence \<Rightarrow> EventSequence \<Rightarrow> bool" where
  "joins si sj =
     (cosineSimilarity (embedding si) (embedding sj) \<ge> 0.75 \<and>
      \<bar>seq_timestamp si - seq_timestamp sj\<bar> \<le> TEMPORAL_WINDOW_MS)"

text \<open>
  The two nested loops of \<^verbatim>\<open>clusterSequences\<close>, on the sequences not yet assigned: the
  first of them seeds a cluster and takes every later one that joins it; the others wait
  for the next seed.
\<close>

definition mk_cluster :: "EventSequence list \<Rightarrow> Cluster" where
  "mk_cluster ms =
     \<lparr>centroid = averageVectors (map embedding ms),
      members = ms,
      intentLabels = concat (map (\<lambda>m. map se_intentLabel (seq_events m)) ms)\<rparr>"

function clusterSequences :: "EventSequence list \<Rightarrow> Cluster list" where
  "clusterSequences [] = []"
| "clusterSequences (s # rest) =
     mk_cluster (s # filter (joins s) rest) # clusterSequences (filter (\<lambda>x. \<not> joins s x) rest)"
  by pat_completeness auto
termination
  by (relation "measure length") (auto simp add: less_Suc_eq_le)

text \<open>\<^verbatim>\<open>xs.join(sep)\<close>\<close>

fun join :: "string \<Rightarrow> string list \<Rightarrow> string" where
  "join sep [] = []"
| "join sep [x] = x"
| "join sep (x # y # ys) = x @ sep @ join sep (y # ys)"

definition computeStatisticalConfidence :: "Cluster \<Rightarrow> real" where
  "computeStatisticalConfidence cluster =
     (let n = length (members cluster) in
      if n < MIN_CLUSTER_SIZE then 0
      else
        let occurrenceScore = min (real n / 10) 1;
            intentSets = map (\<lambda>m. join '','' (map se_intentLabel (seq_events m))) (members cluster);
            uniquePatterns = length (remdups intentSets);
            consistencyScore = 1 - (real uniquePatterns - 1) / real (max n 1);
            allEvents = concat (map seq_events (members cluster));
            avgConfidence = fold (\<lambda>b a. a + b) (map se_intentConfidence allEvents) 0
                              / real (length allEvents)
        in occurrenceScore * 0.3 + consistencyScore * 0.4 + avgConfidence * 0.3)"

text \<open>The fields read from the parsed answer of the model; a field is \<open>None\<close> when absent.\<close>

record parsed_pattern =
  pp_name :: "string option"
  pp_description :: "string option"
  pp_confidence :: "real option"

record tic_env =
  tic_llm :: "nat \<Rightarrow> Cluster \<Rightarrow> string + string option"
  tic_parse :: "string \<Rightarrow> parsed_pattern option"
  tic_uuid :: "nat \<Rightarrow> string"
  tic_now :: int

text \<open>\<^verbatim>\<open>parsed.confidence || 0.5\<close>\<close>

definition semanticConfidence :: "parsed_pattern \<Rightarrow> real" where
  "semanticConfidence parsed =
     (case pp_confidence parsed of None \<Rightarrow> 0.5 | Some c \<Rightarrow> if c = 0 then 0.5 else c)"

text \<open>\<^verbatim>\<open>abstractCluster\<close>: \<open>Inl\<close> when it throws, \<open>Inr None\<close> for \<^verbatim>\<open>null\<close>.
  \<open>k\<close> numbers the clusters handed to it.\<close>

definition abstractCluster :: "tic_env \<Rightarrow> nat \<Rightarrow> Cluster \<Rightarrow> string \<Rightarrow> string + DetectedPattern option" where
  "abstractCluster env k cluster orgId =
     (case tic_llm env k cluster of
        Inl err \<Rightarrow> Inl err
      | Inr content \<Rightarrow>
          if \<not> truthy content then Inr None
          else
            case match_delims CHR ''{'' CHR ''}'' (the content) of
              None \<Rightarrow> Inr None
            | Some m \<Rightarrow>
                (case tic_parse env m of
                   None \<Rightarrow> Inr None
                 | Some parsed \<Rightarrow>
                     let statisticalConfidence = computeStatisticalConfidence cluster;
                         combinedConfidence =
                           statisticalConfidence * 0.6 + semanticConfidence parsed * 0.4
                     in Inr (Some
                          \<lparr>dp_id = tic_uuid env k,
                           dp_orgId = orgId,
                           intentSequence = distinct_first
                             (concat (map (\<lambda>m. map se_intentLabel (seq_events m)) (members cluster))),
                           structuralHashes = distinct_first
                             (concat (map (\<lambda>m. map se_structuralHash (seq_events m)) (members cluster))),
                           occurrences = length (members cluster),
                           dp_confidence = js_round (combinedConfidence * 100) / 100,
                           suggestedName = or_else (pp_name parsed) ''Unnamed Pattern'',
                           suggestedDescription = or_else (pp_description parsed) [],
                           firstSeen = (if members cluster = [] then tic_now env
                                        else seq_timestamp (last (members cluster))),
                           lastSeen = (if members cluster = [] then tic_now env
                                       else seq_timestamp (hd (members cluster)))\<rparr>)))"

text \<open>
  The loop of the handler over the first five valid clusters: the patterns pushed, each
  with the status of the row it upserts into \<^verbatim>\<open>detected_patterns\<close>.
\<close>

fun lift_clusters :: "tic_env \<Rightarrow> nat \<Rightarrow> string \<Rightarrow> Cluster list \<Rightarrow> (DetectedPattern \<times> string) list" where
  "lift_clusters env k orgId [] = []"
| "lift_clusters env k orgId (cluster # rest) =
     (case abstractCluster env k cluster orgId of
        Inr (Some pattern) \<Rightarrow>
          if dp_confidence pattern \<ge> REVIEW_THRESHOLD
          then (pattern, if dp_confidence pattern \<ge> AUTO_SUGGEST_THRESHOLD
                         then ''auto_suggested'' else ''needs_review'')
               # lift_clusters env (Suc k) orgId rest
          else lift_clusters env (Suc k) orgId rest
      | _ \<Rightarrow> lift_clusters env (Suc k) orgId rest)"

record tic_response =
  tr_http :: nat
  tr_code :: "string option"
  tr_rows :: "(DetectedPattern \<times> string) list"

text \<open>\<open>fetched\<close> is the answer of the store to the query for the recent events of the
  organisation, newest first: \<open>Inl\<close> an error, \<open>Inr\<close> the rows.\<close>

definition tic_serve :: "tic_env \<Rightarrow> string option \<Rightarrow> string + SecureEvent list \<Rightarrow> tic_response" where
  "tic_serve env orgId fetched =
     (if \<not> truthy orgId then \<lparr>tr_http = 400, tr_code = Some ''MISSING_ORG'', tr_rows = []\<rparr>
      else
        case fetched of
          Inl err \<Rightarrow> \<lparr>tr_http = 500, tr_code = Some ''INTERNAL_ERROR'', tr_rows = []\<rparr>
        | Inr events \<Rightarrow>
            if length events < MIN_CLUSTER_SIZE then \<lparr>tr_http = 200, tr_code = None, tr_rows = []\<rparr>
            else
              let sequences = extractSequences events WINDOW_SIZE;
                  clusters = clusterSequences sequences;
                  validClusters = filter (\<lambda>c. length (members c) \<ge> MIN_CLUSTER_SIZE) clusters
              in if length validClusters = 0 then \<lparr>tr_http = 200, tr_code = None, tr_rows = []\<rparr>
                 else \<lparr>tr_http = 200, tr_code = None,
                        tr_rows = lift_clusters env 0 (the orgId) (take 5 validClusters)\<rparr>)"

text \<open>
  One session of five events, numbered 1 to 5, five minutes apart from 10:00 to 10:20 on
  1 January 2024 (epoch 1704103200000), all with the same intent vector; the store returns
  them newest first. The model answers with a name and confidence 1.
\<close>

definition walk_event :: "int \<Rightarrow> SecureEvent" where
  "walk_event k =
     \<lparr>se_sessionFingerprint = ''s1'', se_timestampBucket = 1704103200000 + (k - 1) * 300000,
      se_intentVector = [1, 0], se_structuralHash = ''0a1b2c3d'', se_eventType = ''user_int'',
      se_intentLabel = ''data_entry'', se_intentConfidence = 0.9, se_sequenceNumber = k\<rparr>"

definition walk_events :: "SecureEvent list" where
  "walk_events = [walk_event 5, walk_event 4, walk_event 3, walk_event 2, walk_event 1]"

definition walk_env :: tic_env where
  "walk_env =
     \<lparr>tic_llm = (\<lambda>k c. Inr (Some ''{name: Order entry, confidence: 1}'')),
      tic_parse = (\<lambda>s. Some \<lparr>pp_name = Some ''Order entry'', pp_description = None,
                               pp_confidence = Some 1\<rparr>),
      tic_uuid = (\<lambda>k. ''p1''),
      tic_now = 1704103200000\<rparr>"

text \<open>The three windows of that session.\<close>

definition w0 :: EventSequence where
  "w0 = mk_sequence [walk_event 1, walk_event 2, walk_event 3, walk_event 4, walk_event 5]"

definition w1 :: EventSequence where
  "w1 = mk_sequence [walk_event 2, walk_event 3, walk_event 4, walk_event 5]"

definition w2 :: EventSequence where
  "w2 = mk_sequence [walk_event 3, walk_event 4, walk_event 5]"


section \<open>Intent vectors and the privacy pipeline\<close>

text \<open>
  \<^verbatim>\<open>IntentEncoder.generateVector\<close>, \<^verbatim>\<open>extractFeatures\<close>, \<^verbatim>\<open>hashToFloat\<close>,
  \<^verbatim>\<open>DifferentialPrivacy.perturbVector\<close> with its noise, and
  \<^verbatim>\<open>PrivacyPipeline.process\<close> with \<^verbatim>\<open>scrubEvent\<close>. Fractional numbers are real
  numbers: the rounding of binary floating point is not modelled for them. Where the code
  computes on integers the result is exact: a product too large for 53 bits is rounded to
  the nearest double (\<open>to_double\<close>) before the bitwise operator truncates it, as
  JavaScript does. The noise is computed with \<^verbatim>\<open>Math.log\<close>, which is \<^verbatim>\<open>-Infinity\<close> at
  0, a value \<^verbatim>\<open>Math.random()\<close> may return; so the numbers of the noise are reals with
  the two infinities and \<^verbatim>\<open>NaN\<close>.
\<close>

unbundle bit_operations_syntax

fun bitlen :: "nat \<Rightarrow> nat" where
  "bitlen n = (if n = 0 then 0 else Suc (bitlen (n div 2)))"

declare bitlen.simps [simp del]

text \<open>An integer rounded to the nearest binary64 number, ties to even.\<close>

definition to_double :: "int \<Rightarrow> int" where
  "to_double n =
     (let a = \<bar>n\<bar> in
      if a < 2 ^ 53 then n
      else
        let e = bitlen (nat a) - 53;
            q = a div 2 ^ e;
            r = a mod 2 ^ e;
            q' = (if 2 * r > 2 ^ e \<or> (2 * r = 2 ^ e \<and> odd q) then q + 1 else q)
        in sgn n * q' * 2 ^ e)"

definition INTENT_SEEDS :: "string \<Rightarrow> int" where
  "INTENT_SEEDS label =
     (if label = ''data_entry'' then 0x1a2b3c4d
      else if label = ''navigation'' then 0x2b3c4d5e
      else if label = ''communication'' then 0x3c4d5e6f
      else if label = ''research'' then 0x4d5e6f70
      else if label = ''approval'' then 0x5e6f7081
      else if label = ''file_operation'' then 0x6f708192
      else if label = ''authentication'' then 0x708192a3
      else if label = ''configuration'' then 0x8192a3b4
      else if label = ''data_extraction'' then 0x92a3b4c5
      else if label = ''workflow_transition'' then 0xa3b4c5d6
      else if label = ''error_handling'' then 0xb4c5d6e7
      else 0xc5d6e7f8)"

text \<open>\<^verbatim>\<open>rng = (rng * 1103515245 + 12345) & 0x7fffffff\<close>\<close>

definition lcg_next :: "int \<Rightarrow> int" where
  "lcg_next rng = to_double (to_double (rng * 1103515245) + 12345) mod 2 ^ 31"

primrec lcg_vector :: "nat \<Rightarrow> int \<Rightarrow> real list" where
  "lcg_vector 0 rng = []"
| "lcg_vector (Suc n) rng =
     ((real_of_int (lcg_next rng) / 0x7fffffff) * 2 - 1) * 0.5 # lcg_vector n (lcg_next rng)"

text \<open>\<^verbatim>\<open>xs.indexOf(x)\<close>, \<open>None\<close> for \<open>-1\<close>.\<close>

fun index_of :: "'a list \<Rightarrow> 'a \<Rightarrow> nat option" where
  "index_of [] x = None"
| "index_of (y # ys) x = (if y = x then Some 0 else map_option Suc (index_of ys x))"

definition hashToFloat :: "string \<Rightarrow> real" where
  "hashToFloat str =
     real (unat ((fold (\<lambda>c hash. hash * 31 + of_char c) str (0 :: 32 word)) AND 0x7fffffff))
       / 0x7fffffff"

definition extractFeatures :: "RawEvent \<Rightarrow> real list" where
  "extractFeatures event =
     (let actions = [''click'', ''input'', ''scroll'', ''navigate'', ''focus'', ''select'', ''copy'', ''paste''];
          f_action = (case index_of actions (or_else (p_action event) []) of
                        None \<Rightarrow> 0 | Some i \<Rightarrow> real i / real (length actions));
          f_tag = hashToFloat (case p_target event of None \<Rightarrow> [] | Some t \<Rightarrow> tagName t);
          f_depth = min (real (length (case p_target event of None \<Rightarrow> [] | Some t \<Rightarrow> domPath t)) / 20) 1;
          pos = (case p_target event of None \<Rightarrow> None | Some t \<Rightarrow> position t);
          f_pos = (case pos of None \<Rightarrow> [0, 0] | Some p \<Rightarrow> [relativeX p, relativeY p]);
          methods = [''GET'', ''POST'', ''PUT'', ''PATCH'', ''DELETE''];
          f_method = (case index_of methods (or_else (map_option toUpperCase (p_method event)) []) of
                        None \<Rightarrow> 0 | Some i \<Rightarrow> real i / real (length methods));
          f_status = real_of_int (case p_statusCode event of None \<Rightarrow> 0 | Some c \<Rightarrow> c) / 600;
          features = [f_action, f_tag, f_depth] @ f_pos @ [f_method, f_status]
      in take 128 (features @ replicate (128 - length features) 0))"

definition l2norm :: "real list \<Rightarrow> real" where
  "l2norm xs = sqrt (fold (\<lambda>v sum. sum + v * v) xs 0)"

definition generateVector :: "string \<Rightarrow> RawEvent \<Rightarrow> real list" where
  "generateVector label event =
     (let base = lcg_vector 128 (INTENT_SEEDS label);
          features = extractFeatures event;
          mixed = map (\<lambda>(v, f). v * 0.7 + f * 0.3) (zip base features);
          norm = l2norm mixed
      in if norm > 0 then map (\<lambda>v. js_round (v / norm * 10000) / 10000) mixed else mixed)"

definition encode_intent :: "RawEvent \<Rightarrow> string \<times> real \<times> real list" where
  "encode_intent event =
     (let (label, confidence) = classify event
      in (label, confidence, generateVector label event))"

subsection \<open>Numbers with infinities\<close>

text \<open>
  A JavaScript number that may be infinite or \<^verbatim>\<open>NaN\<close>, with the arithmetic of IEEE 754
  on these values. A zero is the positive zero.
\<close>

datatype jsnum = JNum real | JPosInf | JNegInf | JNaN

fun js_sgn :: "jsnum \<Rightarrow> real" where
  "js_sgn (JNum x) = sgn x"
| "js_sgn JPosInf = 1"
| "js_sgn JNegInf = - 1"
| "js_sgn JNaN = 0"

fun js_mul :: "jsnum \<Rightarrow> jsnum \<Rightarrow> jsnum" where
  "js_mul (JNum x) (JNum y) = JNum (x * y)"
| "js_mul JNaN b = JNaN"
| "js_mul a JNaN = JNaN"
| "js_mul a b =
     (if js_sgn a * js_sgn b = 0 then JNaN
      else if js_sgn a * js_sgn b > 0 then JPosInf else JNegInf)"

fun js_add :: "jsnum \<Rightarrow> jsnum \<Rightarrow> jsnum" where
  "js_add (JNum x) (JNum y) = JNum (x + y)"
| "js_add JNaN b = JNaN"
| "js_add a JNaN = JNaN"
| "js_add JPosInf JNegInf = JNaN"
| "js_add JNegInf JPosInf = JNaN"
| "js_add JPosInf b = JPosInf"
| "js_add a JPosInf = JPosInf"
| "js_add JNegInf b = JNegInf"
| "js_add a JNegInf = JNegInf"

fun js_div :: "jsnum \<Rightarrow> jsnum \<Rightarrow> jsnum" where
  "js_div (JNum x) (JNum y) =
     (if y \<noteq> 0 then JNum (x / y)
      else if x = 0 then JNaN else if x > 0 then JPosInf else JNegInf)"
| "js_div JNaN b = JNaN"
| "js_div a JNaN = JNaN"
| "js_div (JNum x) b = JNum 0"
| "js_div a (JNum y) = (if (js_sgn a > 0) = (y \<ge> 0) then JPosInf else JNegInf)"
| "js_div a b = JNaN"

text \<open>\<^verbatim>\<open>Math.log\<close>, \<^verbatim>\<open>Math.sqrt\<close> and \<^verbatim>\<open>Math.round\<close>\<close>

fun js_log :: "jsnum \<Rightarrow> jsnum" where
  "js_log (JNum x) = (if x > 0 then JNum (ln x) else if x = 0 then JNegInf else JNaN)"
| "js_log JPosInf = JPosInf"
| "js_log a = JNaN"

fun js_sqrt :: "jsnum \<Rightarrow> jsnum" where
  "js_sqrt (JNum x) = (if x \<ge> 0 then JNum (sqrt x) else JNaN)"
| "js_sqrt JPosInf = JPosInf"
| "js_sqrt a = JNaN"

fun js_round_num :: "jsnum \<Rightarrow> jsnum" where
  "js_round_num (JNum x) = JNum (js_round x)"
| "js_round_num a = a"

subsection \<open>Noise\<close>

text \<open>\<open>rand k\<close> is what the \<open>k\<close>-th call of \<^verbatim>\<open>Math.random()\<close> within one
  \<^verbatim>\<open>process\<close> returns, a number from 0 inclusive to 1 exclusive.\<close>

definition gaussianNoise :: "real \<Rightarrow> real \<Rightarrow> real \<Rightarrow> real \<Rightarrow> jsnum" where
  "gaussianNoise mean stddev u1 u2 =
     (let z = js_mul (js_sqrt (js_mul (JNum (- 2)) (js_log (JNum u1)))) (JNum (cos (2 * pi * u2)))
      in js_add (js_mul z (JNum stddev)) (JNum mean))"

definition laplacianNoise :: "real \<Rightarrow> real \<Rightarrow> jsnum" where
  "laplacianNoise scale u0 =
     (let u = u0 - 0.5 in js_mul (JNum (- scale * sgn u)) (js_log (JNum (1 - 2 * \<bar>u\<bar>))))"

definition perturbVector :: "(nat \<Rightarrow> real) \<Rightarrow> real list \<Rightarrow> jsnum list" where
  "perturbVector rand vector =
     (let sigma = sqrt 2 / 1.0 in
      map (\<lambda>(i, v).
             js_div (js_round_num (js_mul (js_add (JNum v)
                        (gaussianNoise 0 sigma (rand (2 * i)) (rand (2 * i + 1)))) (JNum 10000)))
                    (JNum 10000))
          (zip [0 ..< length vector] vector))"

text \<open>
  \<^verbatim>\<open>anonymizeTimestamp\<close>. The \<^verbatim>\<open>Date\<close> part (construction, the minutes of local
  time, \<^verbatim>\<open>setMinutes\<close>, \<^verbatim>\<open>toISOString\<close>) is an input, \<open>bucket\<close>, on a finite
  time value: \<open>None\<close> when the value is outside the range of \<^verbatim>\<open>Date\<close>, where
  \<^verbatim>\<open>toISOString\<close> throws \<^verbatim>\<open>RangeError\<close>. On a time value that is not finite the date is
  invalid and \<^verbatim>\<open>toISOString\<close> throws as well.
\<close>

datatype pipeline_error = RangeError | CryptoError

definition anonymizeTimestamp :: "(real \<Rightarrow> string option) \<Rightarrow> real \<Rightarrow> int \<Rightarrow> pipeline_error + string" where
  "anonymizeTimestamp bucket u0 timestamp =
     (case js_add (JNum (real_of_int timestamp)) (laplacianNoise (30 * 1000) u0) of
        JNum noisyTimestamp \<Rightarrow>
          (case bucket noisyTimestamp of None \<Rightarrow> Inl RangeError | Some stamp \<Rightarrow> Inr stamp)
      | _ \<Rightarrow> Inl RangeError)"

subsection \<open>Structural hash and element signature\<close>

text \<open>
  \<^verbatim>\<open>fnv1a\<close>: the exclusive or gives a signed 32-bit integer, the product is a double,
  and \<^verbatim>\<open>>>> 0\<close> reduces it modulo \<open>2\<^sup>3\<^sup>2\<close>.
\<close>

definition fnv1a :: "string \<Rightarrow> int" where
  "fnv1a str =
     fold (\<lambda>c hash. to_double (sint ((word_of_int hash :: 32 word) XOR of_char c) * 0x01000193) mod 2 ^ 32)
          str 0x811c9dc5"

fun hex_of_nat :: "nat \<Rightarrow> string" where
  "hex_of_nat n = (if n < 16 then [hex_digit n] else hex_of_nat (n div 16) @ [hex_digit (n mod 16)])"

declare hex_of_nat.simps [simp del]

definition padStart :: "nat \<Rightarrow> char \<Rightarrow> string \<Rightarrow> string" where
  "padStart n c s = replicate (n - length s) c @ s"

definition generateStructuralHash :: "string list \<Rightarrow> string \<Rightarrow> string" where
  "generateStructuralHash path tag =
     padStart 8 CHR ''0'' (hex_of_nat (nat (fnv1a (join ''>'' path @ '':'' @ tag))))"

definition generateElementSignature :: "string option \<Rightarrow> string list \<Rightarrow> string \<Rightarrow> string" where
  "generateElementSignature ariaRole path tag =
     tag @ (if truthy ariaRole then ''['' @ the ariaRole @ '']'' else []) @ ''@''
       @ join ''>'' (drop (length path - 3) path)"

subsection \<open>The pipeline\<close>

text \<open>
  What the pipeline takes from the platform: \<^verbatim>\<open>RegExp.exec\<close>, the HMAC,
  \<^verbatim>\<open>Math.random()\<close>, the two readings of \<^verbatim>\<open>Date.now()\<close> in \<^verbatim>\<open>process\<close>, the
  \<^verbatim>\<open>Date\<close> part of the timestamp bucket, and \<^verbatim>\<open>hashUrl\<close>, which parses a URL.
  \<^verbatim>\<open>process\<close> returns the Secure Event, or the error it throws, with the state it leaves;
  \<open>None\<close> is a scrubber loop that does not return.
\<close>

record pipeline_env =
  pe_exec :: regex_exec
  pe_hmac :: hmac_port
  pe_rand :: "nat \<Rightarrow> real"
  pe_now :: "nat \<Rightarrow> int"
  pe_bucket :: "real \<Rightarrow> string option"
  pe_hashUrl :: "string \<Rightarrow> string"

record pipeline =
  pl_orgId :: string
  pl_deviceId :: string
  pl_userId :: string
  sequenceCounter :: nat
  entityCounters :: entity_counters

record DeviceSecureEvent =
  out_sessionFingerprint :: string
  out_timestampBucket :: string
  out_intentVector :: "jsnum list"
  out_structuralHash :: string
  out_orgId :: string
  out_eventType :: string
  out_intentLabel :: string
  out_intentConfidence :: real
  out_elementSignature :: "string option"
  out_sequenceNumber :: nat

text \<open>\<^verbatim>\<open>if (field) field = scrub(field)\<close> on an optional string.\<close>

definition scrub_field ::
  "regex_exec \<Rightarrow> entity_counters \<Rightarrow> string option \<Rightarrow> (string option \<times> entity_counters) option" where
  "scrub_field ex cs field =
     (if truthy field
      then map_option (\<lambda>(s, cs'). (Some s, cs')) (scrub ex cs (the field))
      else Some (field, cs))"

fun scrub_mutations ::
  "regex_exec \<Rightarrow> entity_counters \<Rightarrow> MutationSummary list \<Rightarrow> (MutationSummary list \<times> entity_counters) option" where
  "scrub_mutations ex cs [] = Some ([], cs)"
| "scrub_mutations ex cs (m # ms) =
     (case scrub_field ex cs (oldValue m) of
        None \<Rightarrow> None
      | Some (ov, cs1) \<Rightarrow>
          (case scrub_field ex cs1 (newValue m) of
             None \<Rightarrow> None
           | Some (nv, cs2) \<Rightarrow>
               (case scrub_mutations ex cs2 ms of
                  None \<Rightarrow> None
                | Some (ms', cs3) \<Rightarrow> Some (m\<lparr>oldValue := ov, newValue := nv\<rparr> # ms', cs3))))"

definition scrubEvent ::
  "pipeline_env \<Rightarrow> entity_counters \<Rightarrow> RawEvent \<Rightarrow> (RawEvent \<times> entity_counters) option" where
  "scrubEvent env cs event =
     (let ex = pe_exec env in
      case scrub_field ex cs (p_value event) of
        None \<Rightarrow> None
      | Some (v, cs1) \<Rightarrow>
      case scrub_field ex cs1 (p_message event) of
        None \<Rightarrow> None
      | Some (msg, cs2) \<Rightarrow>
      case (case p_target event of
              None \<Rightarrow> Some (None, cs2)
            | Some t \<Rightarrow>
                if textPreview t = [] then Some (Some t, cs2)
                else map_option (\<lambda>(s, cs'). (Some (t\<lparr>textPreview := s\<rparr>), cs'))
                       (scrub ex cs2 (textPreview t))) of
        None \<Rightarrow> None
      | Some (tgt, cs3) \<Rightarrow>
      case (case p_mutations event of
              None \<Rightarrow> Some (None, cs3)
            | Some ms \<Rightarrow> map_option (\<lambda>(ms', cs'). (Some ms', cs')) (scrub_mutations ex cs3 ms)) of
        None \<Rightarrow> None
      | Some (muts, cs4) \<Rightarrow>
      case (if truthy (p_url event)
            then (case containsPii ex (the (p_url event)) of
                    None \<Rightarrow> None
                  | Some True \<Rightarrow> scrub_field ex cs4 (p_url event)
                  | Some False \<Rightarrow> Some (p_url event, cs4))
            else Some (p_url event, cs4)) of
        None \<Rightarrow> None
      | Some (url, cs5) \<Rightarrow>
          Some (event\<lparr>p_value := v, p_message := msg, p_target := tgt, p_mutations := muts,
                       p_url := url, ctx_url := pe_hashUrl env (ctx_url event)\<rparr>, cs5))"

definition process ::
  "pipeline_env \<Rightarrow> pipeline \<Rightarrow> RawEvent \<Rightarrow> ((pipeline_error + DeviceSecureEvent) \<times> pipeline) option" where
  "process env pl event =
     (case scrubEvent env (entityCounters pl) event of
        None \<Rightarrow> None
      | Some (scrubbed, cs) \<Rightarrow>
          let (label, confidence, vector) = encode_intent scrubbed;
              noisyVector = perturbVector (pe_rand env) vector
          in
          case anonymizeTimestamp (pe_bucket env) (pe_rand env (2 * length vector)) (pe_now env 0) of
            Inl err \<Rightarrow> Some (Inl err, pl\<lparr>entityCounters := cs\<rparr>)
          | Inr timestampBucket \<Rightarrow>
          case generateSessionFingerprint (pe_hmac env) (pl_deviceId pl) (pl_userId pl) (pe_now env 1) of
            None \<Rightarrow> Some (Inl CryptoError, pl\<lparr>entityCounters := cs\<rparr>)
          | Some sessionFingerprint \<Rightarrow>
              let path = (case p_target event of None \<Rightarrow> [] | Some t \<Rightarrow> domPath t);
                  tag = (case p_target event of None \<Rightarrow> [] | Some t \<Rightarrow> tagName t);
                  structuralHash = generateStructuralHash path tag;
                  elementSignature = (case p_target event of
                                        None \<Rightarrow> None
                                      | Some t \<Rightarrow> Some (generateElementSignature (aria_role t) path tag))
              in Some (Inr \<lparr>out_sessionFingerprint = sessionFingerprint,
                            out_timestampBucket = timestampBucket,
                            out_intentVector = noisyVector,
                            out_structuralHash = structuralHash,
                            out_orgId = pl_orgId pl,
                            out_eventType = eventType event,
                            out_intentLabel = label,
                            out_intentConfidence = js_round (confidence * 100) / 100,
                            out_elementSignature = elementSignature,
                            out_sequenceNumber = Suc (sequenceCounter pl)\<rparr>,
                       pl\<lparr>sequenceCounter := Suc (sequenceCounter pl), entityCounters := cs\<rparr>))"

text \<open>An engine that finds nothing, a clock, and noise draws that make every Gaussian
  draw equal to one standard deviation; then the same with every draw equal to 0.\<close>

definition quiet_env :: pipeline_env where
  "quiet_env =
     \<lparr>pe_exec = (\<lambda>ty s k. None), pe_hmac = echo_hmac,
      pe_rand = (\<lambda>k. if even k then exp (- 1 / 2) else 0),
      pe_now = (\<lambda>k. 1704103200000), pe_bucket = (\<lambda>t. Some ''2024-01-01T10:00:00.000Z''),
      pe_hashUrl = (\<lambda>u. ''https://example.com/0'')\<rparr>"

definition zero_env :: pipeline_env where
  "zero_env = quiet_env\<lparr>pe_rand := (\<lambda>k. 0)\<rparr>"

definition pipeline0 :: pipeline where
  "pipeline0 = \<lparr>pl_orgId = ''o1'', pl_deviceId = ''d'', pl_userId = ''u'',
                 sequenceCounter = 0, entityCounters = resetCounters\<rparr>"


section \<open>Properties\<close>

subsection \<open>PII scrubber: detected spans and splicing\<close>

lemma exec_loop_total:
  assumes c: "\<And>k i m. f k = Some (i, m) \<Longrightarrow> k \<le> i \<and> m \<noteq> [] \<and> i + length m \<le> n"
  shows "\<exists>ms. exec_loop f k = Some ms \<and> (\<forall>im\<in>set ms. snd im \<noteq> [] \<and> fst im + length (snd im) \<le> n)"
proof (induction "n - k" arbitrary: k rule: less_induct)
  case less
  show ?case
  proof (cases "f k")
    case None
    then show ?thesis by (subst exec_loop.simps) simp
  next
    case (Some im)
    obtain i m where im: "im = (i, m)" by (cases im)
    from c [of k i m] Some im have b: "k \<le> i" "m \<noteq> []" "i + length m \<le> n" by auto
    then have "n - (i + length m) < n - k" by (cases m) auto
    from less [OF this] obtain ms where
      ms: "exec_loop f (i + length m) = Some ms"
          "\<forall>im\<in>set ms. snd im \<noteq> [] \<and> fst im + length (snd im) \<le> n" by blast
    have "exec_loop f k = Some ((i, m) # ms)"
      by (subst exec_loop.simps) (simp add: Some im ms)
    with ms b show ?thesis by auto
  qed
qed

lemma collect_entities_total:
  assumes "engine_ok ex text"
  shows "\<exists>es. collect_entities ex text tys = Some es \<and> (\<forall>e\<in>set es. valid_span (length text) e)"
proof (induction tys)
  case Nil
  then show ?case by simp
next
  case (Cons ty tys)
  have "\<And>k i m. ex ty text k = Some (i, m) \<Longrightarrow> k \<le> i \<and> m \<noteq> [] \<and> i + length m \<le> length text"
    using assms unfolding engine_ok_def by blast
  from exec_loop_total [of "ex ty text" "length text" 0, OF this]
  obtain ms where ms: "exec_loop (ex ty text) 0 = Some ms"
    "\<forall>im\<in>set ms. snd im \<noteq> [] \<and> fst im + length (snd im) \<le> length text" by blast
  from Cons obtain rest where rest: "collect_entities ex text tys = Some rest"
    "\<forall>e\<in>set rest. valid_span (length text) e" by blast
  have "\<forall>e\<in>set (map (entity_of ty) ms). valid_span (length text) e"
    using ms(2) by (auto simp add: entity_of_def valid_span_def)
  with ms rest show ?case by auto
qed

lemma chain_snoc:
  assumes "result \<noteq> []" "chain result" "\<forall>x\<in>set result. valid_span n x"
    and "e_end (last result) \<le> e_start e"
  shows "chain (result @ [e])"
proof -
  have "\<forall>x\<in>set result. e_end x \<le> e_start e"
  proof
    fix x assume x: "x \<in> set result"
    show "e_end x \<le> e_start e"
    proof (cases "x = last result")
      case True with assms(4) show ?thesis by simp
    next
      case False
      with x assms(1) have "x \<in> set (butlast result)"
        by (metis append_butlast_last_id in_set_conv_decomp_first rotate1.simps(2) set_ConsD set_rotate1)
      moreover have "chain (butlast result @ [last result])" using assms(1,2) by simp
      ultimately have "e_end x \<le> e_start (last result)"
        by (simp add: sorted_wrt_append)
      moreover have "e_start (last result) < e_end (last result)"
        using assms(1,3) by (simp add: valid_span_def)
      ultimately show ?thesis using assms(4) by simp
    qed
  qed
  with assms(2) show ?thesis by (simp add: sorted_wrt_append)
qed

lemma chain_replace:
  assumes "result \<noteq> []" "chain result" "e_start (last result) \<le> e_start e"
  shows "chain (butlast result @ [e])"
proof -
  have c: "chain (butlast result @ [last result])" using assms(1,2) by simp
  then have "chain (butlast result)" "\<forall>x\<in>set (butlast result). e_end x \<le> e_start (last result)"
    by (simp_all add: sorted_wrt_append)
  with assms(3) show ?thesis by (fastforce simp add: sorted_wrt_append)
qed

lemma overlap_loop_inv:
  assumes "result \<noteq> []" "chain result" "\<forall>x\<in>set result. valid_span n x"
    and "\<forall>x\<in>set es. valid_span n x" "sorted (map e_start es)"
    and "\<forall>x\<in>set es. e_start (last result) \<le> e_start x"
  shows "chain (overlap_loop result es) \<and> (\<forall>x\<in>set (overlap_loop result es). valid_span n x)
         \<and> set (overlap_loop result es) \<subseteq> set result \<union> set es"
  using assms
proof (induction es arbitrary: result)
  case Nil
  then show ?case by simp
next
  case (Cons e es)
  have ve: "valid_span n e" using Cons.prems(4) by simp
  have le: "e_start (last result) \<le> e_start e" using Cons.prems(6) by simp
  have rest_valid: "\<forall>x\<in>set es. valid_span n x" using Cons.prems(4) by simp
  have rest_sorted: "sorted (map e_start es)" using Cons.prems(5) by simp
  have rest_ge: "\<forall>x\<in>set es. e_start e \<le> e_start x" using Cons.prems(5) by auto
  show ?case
  proof (cases "e_start e \<ge> e_end (last result)")
    case True
    have c: "chain (result @ [e])"
      using chain_snoc [OF Cons.prems(1,2,3)] True by simp
    have "chain (overlap_loop (result @ [e]) es) \<and> (\<forall>x\<in>set (overlap_loop (result @ [e]) es). valid_span n x)
         \<and> set (overlap_loop (result @ [e]) es) \<subseteq> set (result @ [e]) \<union> set es"
      using Cons.prems(3) ve rest_valid rest_sorted rest_ge c
      by (intro Cons.IH) auto
    with True show ?thesis by (auto simp add: Let_def)
  next
    case False
    show ?thesis
    proof (cases "int (e_end e) - int (e_start e) > int (e_end (last result)) - int (e_start (last result))")
      case True
      have c: "chain (butlast result @ [e])"
        using chain_replace [OF Cons.prems(1,2) le] .
      have bl: "set (butlast result) \<subseteq> set result"
        by (meson in_set_butlastD subsetI)
      have "chain (overlap_loop (butlast result @ [e]) es) \<and>
            (\<forall>x\<in>set (overlap_loop (butlast result @ [e]) es). valid_span n x)
         \<and> set (overlap_loop (butlast result @ [e]) es) \<subseteq> set (butlast result @ [e]) \<union> set es"
        using Cons.prems(3) ve rest_valid rest_sorted rest_ge c bl
        by (intro Cons.IH) auto
      with False True bl show ?thesis by (auto simp add: Let_def)
    next
      case F2: False
      have "\<forall>x\<in>set es. e_start (last result) \<le> e_start x"
        using rest_ge le by auto
      then have "chain (overlap_loop result es) \<and> (\<forall>x\<in>set (overlap_loop result es). valid_span n x)
         \<and> set (overlap_loop result es) \<subseteq> set result \<union> set es"
        using Cons.prems(1,2,3) rest_valid rest_sorted by (intro Cons.IH) auto
      with False F2 show ?thesis by (auto simp add: Let_def)
    qed
  qed
qed

lemma sorted_fst_of_pairs:
  "sorted (map (\<lambda>e. (f e, g e)) xs) \<Longrightarrow> sorted (map f xs)"
  for f :: "'a \<Rightarrow> nat" and g :: "'a \<Rightarrow> int"
  by (induction xs) (auto simp add: less_eq_prod_def)

lemma removeOverlaps_inv:
  assumes "\<forall>x\<in>set entities. valid_span n x"
  shows "chain (removeOverlaps entities) \<and> (\<forall>x\<in>set (removeOverlaps entities). valid_span n x)
         \<and> set (removeOverlaps entities) \<subseteq> set entities"
proof (cases "length entities \<le> 1")
  case True
  then have "entities = [] \<or> (\<exists>x. entities = [x])"
    by (cases entities) auto
  with True assms show ?thesis by (auto simp add: removeOverlaps_def)
next
  case False
  define sorted_es where "sorted_es = sort_key (\<lambda>e. (e_start e, - int (e_end e))) entities"
  have "length sorted_es = length entities" by (simp add: sorted_es_def)
  with False have ne: "sorted_es \<noteq> []" by auto
  then obtain h t where ht: "sorted_es = h # t" by (cases sorted_es) auto
  have set_eq: "set sorted_es = set entities" by (simp add: sorted_es_def)
  have "sorted (map (\<lambda>e. (e_start e, - int (e_end e))) sorted_es)"
    by (simp add: sorted_es_def)
  then have st: "sorted (map e_start sorted_es)" by (rule sorted_fst_of_pairs)
  have "chain (overlap_loop [h] t) \<and> (\<forall>x\<in>set (overlap_loop [h] t). valid_span n x)
         \<and> set (overlap_loop [h] t) \<subseteq> set [h] \<union> set t"
    using assms set_eq st ht by (intro overlap_loop_inv) auto
  with False ht set_eq show ?thesis
    by (auto simp add: removeOverlaps_def sorted_es_def [symmetric] Let_def)
qed

lemma chain_strict_starts:
  "chain xs \<Longrightarrow> \<forall>x\<in>set xs. valid_span n x \<Longrightarrow> sorted_wrt (\<lambda>a b. e_start a < e_start b) xs"
proof (induction xs)
  case Nil
  then show ?case by simp
next
  case (Cons a xs)
  have "\<forall>b\<in>set xs. e_start a < e_start b"
  proof
    fix b assume "b \<in> set xs"
    with Cons.prems(1) have "e_end a \<le> e_start b" by simp
    moreover have "e_start a < e_end a" using Cons.prems(2) by (simp add: valid_span_def)
    ultimately show "e_start a < e_start b" by simp
  qed
  with Cons show ?case by simp
qed

lemma insort_key_snoc:
  "\<forall>x\<in>set ys. f x < f a \<Longrightarrow> insort_key f a ys = ys @ [a]"
  by (induction ys) auto

lemma sort_desc_rev:
  "sorted_wrt (\<lambda>a b. e_start a < e_start b) xs \<Longrightarrow>
   sort_key (\<lambda>e. - int (e_start e)) xs = rev xs"
proof (induction xs)
  case Nil
  then show ?case by simp
next
  case (Cons a xs)
  then have "sort_key (\<lambda>e. - int (e_start e)) xs = rev xs" by simp
  moreover have "\<forall>x\<in>set (rev xs). - int (e_start x) < - int (e_start a)"
    using Cons.prems by auto
  ultimately show ?case by (simp add: insort_key_snoc)
qed

lemma splice_loop_tokens:
  "splice_loop cs result es =
     (splice_desc result (zip es (fst (assign_tokens cs es))), snd (assign_tokens cs es))"
  by (induction es arbitrary: cs result) (simp_all add: case_prod_beta Let_def)

lemma length_assign_tokens: "length (fst (assign_tokens cs es)) = length es"
  by (induction es arbitrary: cs) (simp_all add: case_prod_beta Let_def)

lemma spans_from_le: "spans_from pos n ps \<Longrightarrow> pos \<le> n"
  by (induction pos n ps rule: spans_from.induct) auto

lemma spans_from_mono: "spans_from pos n ps \<Longrightarrow> n \<le> n' \<Longrightarrow> spans_from pos n' ps"
  by (induction pos n ps rule: spans_from.induct) auto

lemma spans_from_snoc:
  "spans_from pos n (ps @ [(e, r)]) \<longleftrightarrow>
     spans_from pos (e_start e) ps \<and> e_start e \<le> e_end e \<and> e_end e \<le> n"
  by (induction pos n ps rule: spans_from.induct) auto

lemma replace_spans_prefix:
  "spans_from pos (length X) ps \<Longrightarrow> replace_spans pos (X @ Y) ps = replace_spans pos X ps @ Y"
proof (induction pos X ps rule: replace_spans.induct)
  case (1 pos str)
  then show ?case by simp
next
  case (2 pos str e r rest)
  then have a: "pos \<le> e_start e" "e_start e \<le> e_end e" "spans_from (e_end e) (length str) rest"
    by simp_all
  from spans_from_le [OF a(3)] have "e_end e \<le> length str" .
  with a have "take (e_start e - pos) (drop pos (str @ Y)) = take (e_start e - pos) (drop pos str)"
    by simp
  with 2 a show ?case by simp
qed

lemma replace_spans_snoc:
  "spans_from pos (e_start e) ps \<Longrightarrow>
   replace_spans pos str (ps @ [(e, r)]) =
     replace_spans pos (take (e_start e) str) ps @ r @ drop (e_end e) str"
proof (induction pos str ps rule: replace_spans.induct)
  case (1 pos str)
  then show ?case by (simp add: drop_take)
next
  case (2 pos str e1 r1 rest)
  then have a: "pos \<le> e_start e1" "e_start e1 \<le> e_end e1" "spans_from (e_end e1) (e_start e) rest"
    by simp_all
  from spans_from_le [OF a(3)] have "e_end e1 \<le> e_start e" .
  with a have "take (e_start e1 - pos) (drop pos (take (e_start e) str))
       = take (e_start e1 - pos) (drop pos str)"
    by (simp add: drop_take min_def)
  with 2 a show ?case by simp
qed

lemma splice_desc_replace_spans:
  "spans_from 0 (length str) ps \<Longrightarrow> splice_desc str (rev ps) = replace_spans 0 str ps"
proof (induction ps arbitrary: str rule: rev_induct)
  case Nil
  then show ?case by simp
next
  case (snoc p ps)
  obtain e r where p: "p = (e, r)" by (cases p)
  from snoc.prems p have a: "spans_from 0 (e_start e) ps" "e_start e \<le> e_end e" "e_end e \<le> length str"
    by (simp_all add: spans_from_snoc)
  let ?t = "take (e_start e) str @ r @ drop (e_end e) str"
  have len: "length (take (e_start e) str) = e_start e" using a by simp
  have "spans_from 0 (length ?t) ps"
  proof (rule spans_from_mono [OF a(1)])
    have "length ?t = e_start e + (length r + (length str - e_end e))"
      using len by simp
    then show "e_start e \<le> length ?t" by linarith
  qed
  then have "splice_desc ?t (rev ps) = replace_spans 0 ?t ps" by (rule snoc.IH)
  also have "\<dots> = replace_spans 0 (take (e_start e) str) ps @ r @ drop (e_end e) str"
    using a(1) len replace_spans_prefix [of 0 "take (e_start e) str" ps] by simp
  also have "\<dots> = replace_spans 0 str (ps @ [(e, r)])"
    using replace_spans_snoc [OF a(1)] by simp
  finally show ?case by (simp add: p)
qed

lemma spans_from_chain:
  "chain xs \<Longrightarrow> \<forall>x\<in>set xs. valid_span n x \<Longrightarrow> length rs = length xs \<Longrightarrow>
   pos \<le> n \<Longrightarrow> \<forall>x\<in>set xs. pos \<le> e_start x \<Longrightarrow> spans_from pos n (zip xs rs)"
proof (induction xs arbitrary: rs pos)
  case Nil
  then show ?case by simp
next
  case (Cons a xs)
  then obtain r rs' where rs: "rs = r # rs'" by (cases rs) auto
  have "spans_from (e_end a) n (zip xs rs')"
    using Cons.prems rs by (intro Cons.IH) (auto simp add: valid_span_def)
  with Cons.prems rs show ?case by (auto simp add: valid_span_def)
qed

text \<open>
  C10. On every text on which the engine keeps its contract, \<^verbatim>\<open>detect\<close> returns, and
  its spans are pairwise disjoint, in strictly increasing order of start, not empty and
  inside the text; \<^verbatim>\<open>scrub\<close> returns as well, and its result is the text with exactly
  these spans replaced by their tokens, the tokens being handed out from the last span to
  the first.
\<close>

theorem detect_scrub:
  assumes "engine_ok ex text"
  shows "\<exists>ents. detect ex text = Some ents \<and>
           sorted_wrt (\<lambda>a b. e_end a \<le> e_start b) ents \<and>
           sorted_wrt (\<lambda>a b. e_start a < e_start b) ents \<and>
           (\<forall>e\<in>set ents. e_start e < e_end e \<and> e_end e \<le> length text) \<and>
           scrub ex cs text =
             Some (replace_spans 0 text (zip ents (rev (fst (assign_tokens cs (rev ents))))),
                   snd (assign_tokens cs (rev ents)))"
proof -
  from collect_entities_total [OF assms, of pattern_types]
  obtain raw where raw: "collect_entities ex text pattern_types = Some raw"
    "\<forall>e\<in>set raw. valid_span (length text) e" by blast
  define ents where "ents = removeOverlaps raw"
  have det: "detect ex text = Some ents" by (simp add: detect_def raw ents_def)
  from removeOverlaps_inv [OF raw(2)]
  have ch: "chain ents" and va: "\<forall>x\<in>set ents. valid_span (length text) x"
    by (simp_all add: ents_def)
  have st: "sorted_wrt (\<lambda>a b. e_start a < e_start b) ents"
    using chain_strict_starts [OF ch va] .
  let ?toks = "fst (assign_tokens cs (rev ents))"
  have len: "length (rev ?toks) = length ents" by (simp add: length_assign_tokens)
  have sp: "spans_from 0 (length text) (zip ents (rev ?toks))"
    using ch va len by (intro spans_from_chain) auto
  have zr: "zip (rev ents) ?toks = rev (zip ents (rev ?toks))"
    using len zip_rev [of ents "rev ?toks"] by simp
  have loop: "splice_loop cs text (sort_key (\<lambda>e. - int (e_start e)) ents) =
      (replace_spans 0 text (zip ents (rev ?toks)), snd (assign_tokens cs (rev ents)))"
    by (simp add: sort_desc_rev [OF st] splice_loop_tokens zr splice_desc_replace_spans [OF sp])
  have sc: "scrub ex cs text =
             Some (replace_spans 0 text (zip ents (rev ?toks)), snd (assign_tokens cs (rev ents)))"
  proof (cases "ents = []")
    case True
    then show ?thesis by (simp add: scrub_def det)
  next
    case False
    then obtain x where "x \<in> set ents" by (cases ents) auto
    with va have "text \<noteq> []" by (auto simp add: valid_span_def)
    with False show ?thesis by (simp add: scrub_def det loop)
  qed
  from det ch st va sc show ?thesis by (auto simp add: valid_span_def)
qed

lemma sample_exec_ok: "engine_ok sample_exec ''123456789''"
  by (simp add: engine_ok_def sample_exec_def)

lemma exec_loop_sample_phone:
  "exec_loop (sample_exec ''PHONE'' ''123456789'') 0 = Some [(0, ''12345678'')]"
  by (subst exec_loop.simps, simp add: sample_exec_def, subst exec_loop.simps, simp add: sample_exec_def)

lemma exec_loop_sample_ssn:
  "exec_loop (sample_exec ''SSN'' ''123456789'') 0 = Some [(0, ''123456789'')]"
  by (subst exec_loop.simps, simp add: sample_exec_def, subst exec_loop.simps, simp add: sample_exec_def)

lemma exec_loop_sample_other:
  "ty \<noteq> ''PHONE'' \<Longrightarrow> ty \<noteq> ''SSN'' \<Longrightarrow> exec_loop (sample_exec ty ''123456789'') 0 = Some []"
  by (subst exec_loop.simps, simp add: sample_exec_def)

lemma detect_sample:
  "detect sample_exec ''123456789'' =
     Some [\<lparr>e_type = ''SSN'', e_value = ''123456789'', e_start = 0, e_end = 9\<rparr>]"
  by (simp add: detect_def pattern_types_def exec_loop_sample_phone exec_loop_sample_ssn
      exec_loop_sample_other entity_of_def removeOverlaps_def Let_def less_eq_prod_def)

theorem detect_scrub_witness:
  "detect sample_exec ''123456789'' =
     Some [\<lparr>e_type = ''SSN'', e_value = ''123456789'', e_start = 0, e_end = 9\<rparr>] \<and>
   map_option fst (scrub sample_exec resetCounters ''123456789'') = Some ''[SSN_1]''"
proof -
  from detect_scrub [OF sample_exec_ok, of resetCounters]
  obtain ents where e: "detect sample_exec ''123456789'' = Some ents"
    "scrub sample_exec resetCounters ''123456789'' =
             Some (replace_spans 0 ''123456789'' (zip ents (rev (fst (assign_tokens resetCounters (rev ents))))),
                   snd (assign_tokens resetCounters (rev ents)))"
    by blast
  from e(1) have ents: "ents = [\<lparr>e_type = ''SSN'', e_value = ''123456789'', e_start = 0, e_end = 9\<rparr>]"
    by (simp add: detect_sample)
  have d1: "decimal 1 = ''1''"
    by (simp add: decimal.simps digit_char_def)
  have "map_option fst (scrub sample_exec resetCounters ''123456789'') =
      Some (replace_spans 0 ''123456789'' (zip ents (rev (fst (assign_tokens resetCounters (rev ents))))))"
    by (simp only: e(2) option.map fst_conv)
  also have "\<dots> = Some ''[SSN_1]''"
    using d1 by (simp add: ents getReplacement_def resetCounters_def normalize_value_def Let_def)
  finally show ?thesis
    by (simp add: detect_sample)
qed


subsection \<open>Ingestion: the rate limiter counts requests\<close>

lemma checkRateLimit_fresh:
  "rl dev = None \<Longrightarrow>
   checkRateLimit t dev rl = (True, rl(dev \<mapsto> \<lparr>rl_count = 1, rl_resetAt = t + 60000\<rparr>))"
  by (simp add: checkRateLimit_def)

lemma checkRateLimit_inc:
  "rl dev = Some \<lparr>rl_count = n, rl_resetAt = t + 60000\<rparr> \<Longrightarrow> n < 1000 \<Longrightarrow>
   checkRateLimit t dev rl = (True, rl(dev \<mapsto> \<lparr>rl_count = Suc n, rl_resetAt = t + 60000\<rparr>))"
  by (simp add: checkRateLimit_def RATE_LIMIT_PER_MINUTE_def)

lemma ingest_serve_post_fresh:
  assumes "rateLimits s ''devA'' = None" and "k \<le> 100"
  shows "ingest_serve s (post_batch t ''devA'' k e) =
     (\<lparr>r_status = 202, r_code = None, r_retry_after = None, r_accepted = Some k\<rparr>,
      s\<lparr>rateLimits := (rateLimits s)(''devA'' \<mapsto> \<lparr>rl_count = 1, rl_resetAt = t + 60000\<rparr>),
        secure_events := secure_events s @ replicate k (''devA'', e)\<rparr>)"
  using assms
  by (simp add: ingest_serve_def post_batch_def MAX_BATCH_SIZE_def device_key_def truthy_def
      checkRateLimit_fresh map_replicate_const Let_def)

lemma ingest_serve_post_inc:
  assumes "rateLimits s ''devA'' = Some \<lparr>rl_count = n, rl_resetAt = t + 60000\<rparr>"
    and "n < 1000" and "k \<le> 100"
  shows "ingest_serve s (post_batch t ''devA'' k e) =
     (\<lparr>r_status = 202, r_code = None, r_retry_after = None, r_accepted = Some k\<rparr>,
      s\<lparr>rateLimits := (rateLimits s)(''devA'' \<mapsto> \<lparr>rl_count = Suc n, rl_resetAt = t + 60000\<rparr>),
        secure_events := secure_events s @ replicate k (''devA'', e)\<rparr>)"
  using assms
  by (simp add: ingest_serve_def post_batch_def MAX_BATCH_SIZE_def device_key_def truthy_def
      checkRateLimit_inc map_replicate_const Let_def)

lemma ingest_run_Cons:
  "ingest_run s (c # cs) =
     (fst (ingest_serve s c) # fst (ingest_run (snd (ingest_serve s c)) cs),
      snd (ingest_run (snd (ingest_serve s c)) cs))"
  by (simp add: case_prod_beta)

lemma ingest_run_burst:
  assumes "rateLimits s ''devA'' = Some \<lparr>rl_count = n, rl_resetAt = t + 60000\<rparr>"
    and "n + m \<le> 1000" and "k \<le> 100"
  shows "map r_status (fst (ingest_run s (replicate m (post_batch t ''devA'' k e)))) = replicate m 202 \<and>
         length (secure_events (snd (ingest_run s (replicate m (post_batch t ''devA'' k e)))))
           = length (secure_events s) + m * k"
  using assms
proof (induction m arbitrary: s n)
  case 0
  then show ?case by simp
next
  case (Suc m)
  define s1 where "s1 = snd (ingest_serve s (post_batch t ''devA'' k e))"
  have step: "ingest_serve s (post_batch t ''devA'' k e) =
     (\<lparr>r_status = 202, r_code = None, r_retry_after = None, r_accepted = Some k\<rparr>,
      s\<lparr>rateLimits := (rateLimits s)(''devA'' \<mapsto> \<lparr>rl_count = Suc n, rl_resetAt = t + 60000\<rparr>),
        secure_events := secure_events s @ replicate k (''devA'', e)\<rparr>)"
    using Suc.prems by (intro ingest_serve_post_inc) auto
  have rl1: "rateLimits s1 ''devA'' = Some \<lparr>rl_count = Suc n, rl_resetAt = t + 60000\<rparr>"
    by (simp add: s1_def step)
  have len1: "length (secure_events s1) = length (secure_events s) + k"
    by (simp add: s1_def step)
  have "Suc n + m \<le> 1000" using Suc.prems by simp
  then have ih:
    "map r_status (fst (ingest_run s1 (replicate m (post_batch t ''devA'' k e)))) = replicate m 202 \<and>
     length (secure_events (snd (ingest_run s1 (replicate m (post_batch t ''devA'' k e)))))
       = length (secure_events s1) + m * k"
    using Suc.IH [OF rl1] Suc.prems(3) by blast
  have "replicate (Suc m) (post_batch t ''devA'' k e)
          = post_batch t ''devA'' k e # replicate m (post_batch t ''devA'' k e)"
    by simp
  then show ?case
    using ih len1 by (simp only: ingest_run_Cons fst_conv snd_conv s1_def [symmetric])
      (simp add: step)
qed

text \<open>
  C2. Eleven POSTs of 100 events each, all carrying \<^verbatim>\<open>X-Ghost-Device: devA\<close> and all
  arriving at the same clock reading: every one is answered 202 and 1100 rows are stored,
  because the limiter adds one per request, whatever the number of events in it.
\<close>

theorem ingest_accepts_1100_events_in_one_minute:
  "map r_status (fst (ingest_run ingest_init (replicate 11 (post_batch 0 ''devA'' 100 ''ev'')))) = replicate 11 202 \<and>
   length (secure_events (snd (ingest_run ingest_init (replicate 11 (post_batch 0 ''devA'' 100 ''ev''))))) = 1100"
proof -
  define s1 where "s1 = snd (ingest_serve ingest_init (post_batch 0 ''devA'' 100 ''ev''))"
  have first: "ingest_serve ingest_init (post_batch 0 ''devA'' 100 ''ev'') =
     (\<lparr>r_status = 202, r_code = None, r_retry_after = None, r_accepted = Some 100\<rparr>,
      ingest_init\<lparr>rateLimits := (rateLimits ingest_init)(''devA'' \<mapsto> \<lparr>rl_count = 1, rl_resetAt = 0 + 60000\<rparr>),
        secure_events := secure_events ingest_init @ replicate 100 (''devA'', ''ev'')\<rparr>)"
    using ingest_serve_post_fresh [of "ingest_init :: string ingest_state" 100 0 "''ev''"]
    by (simp add: ingest_init_def)
  have rl1: "rateLimits s1 ''devA'' = Some \<lparr>rl_count = 1, rl_resetAt = 0 + 60000\<rparr>"
    by (unfold s1_def, subst first, simp)
  have len1: "length (secure_events s1) = 100"
    by (unfold s1_def, subst first, simp add: ingest_init_def)
  have rest: "map r_status (fst (ingest_run s1 (replicate 10 (post_batch 0 ''devA'' 100 ''ev'')))) = replicate 10 202 \<and>
     length (secure_events (snd (ingest_run s1 (replicate 10 (post_batch 0 ''devA'' 100 ''ev'')))))
       = length (secure_events s1) + 10 * 100"
    by (rule ingest_run_burst [OF rl1]) simp_all
  have split: "replicate 11 (post_batch 0 ''devA'' 100 ''ev'')
        = post_batch 0 ''devA'' 100 ''ev'' # replicate 10 (post_batch 0 ''devA'' 100 ''ev'')"
    by (simp add: numeral_eq_Suc)
  have r11: "replicate 11 (202::nat) = 202 # replicate 10 202"
    by (simp add: numeral_eq_Suc)
  show ?thesis
    using rest len1
    unfolding split r11 ingest_run_Cons fst_conv snd_conv s1_def [symmetric]
    by (subst first, simp)
qed


subsection \<open>Governance: approve\<close>

lemma approve_ghost_approve:
  assumes "req_ghost_id rq = Some gid" and "gid \<noteq> []" and "req_action rq = Some ''approve''"
    and "ghosts db gid = Some g"
  shows "approve_ghost now None db rq =
     (\<lparr>resp_status = 200, resp_error = None, resp_new_status = Some ''approved'',
       resp_version = Some (ghost_version g + 1)\<rparr>,
      db\<lparr>ghosts := (ghosts db)(gid \<mapsto>
            g\<lparr>ghost_status := ''approved'', ghost_is_active := True,
              ghost_version := ghost_version g + 1, ghost_updated_at := now\<rparr>),
         ghost_versions := insert_ghost_version
            \<lparr>gv_ghost_id = gid, gv_version = ghost_version g + 1,
             gv_execution_plan = ghost_execution_plan g,
             gv_parameters = ghost_parameters g,
             gv_trigger = ghost_trigger g,
             gv_change_description = js_or (req_decision_note rq) ''Approved'',
             gv_created_by = or_else (req_approved_by rq) ''system''\<rparr> (ghost_versions db),
         approval_requests := resolve_requests gid ''approve'' rq now (approval_requests db)\<rparr>)"
  using assms
  by (simp add: approve_ghost_def truthy_def statusMap_def Let_def)

lemma insert_ghost_version_fresh:
  "\<not> list_ex (\<lambda>q. gv_ghost_id q = gv_ghost_id r \<and> gv_version q = gv_version r) rows
   \<Longrightarrow> insert_ghost_version r rows = rows @ [r]"
  by (simp add: insert_ghost_version_def)

text \<open>
  C3 (as amended). The handler never reads the current status. Every request with action
  \<^verbatim>\<open>approve\<close>, whatever its note and whoever it names as approver, on a ghost in any
  status, when the store accepts the update and holds no version row for the next version
  yet, is answered 200; it sets status approved and is_active true, raises the version by
  exactly one, appends exactly one \<^verbatim>\<open>ghost_versions\<close> row carrying the ghost's plan,
  parameters and trigger, and resolves the ghost's pending approval requests. Hence every
  approve call advances the version once.
\<close>

theorem approve_any_status_advances_version:
  assumes "req_ghost_id rq = Some gid" and "gid \<noteq> []" and "req_action rq = Some ''approve''"
    and "ghosts db gid = Some g"
    and "\<not> list_ex (\<lambda>q. gv_ghost_id q = gid \<and> gv_version q = ghost_version g + 1) (ghost_versions db)"
    and "approve_ghost now None db rq = (resp, db')"
  shows "resp_status resp = 200 \<and> resp_new_status resp = Some ''approved'' \<and>
         resp_version resp = Some (ghost_version g + 1) \<and>
         ghosts db' = (ghosts db)(gid \<mapsto>
            g\<lparr>ghost_status := ''approved'', ghost_is_active := True,
              ghost_version := ghost_version g + 1, ghost_updated_at := now\<rparr>) \<and>
         ghost_versions db' = ghost_versions db @
            [\<lparr>gv_ghost_id = gid, gv_version = ghost_version g + 1,
              gv_execution_plan = ghost_execution_plan g,
              gv_parameters = ghost_parameters g,
              gv_trigger = ghost_trigger g,
              gv_change_description = js_or (req_decision_note rq) ''Approved'',
              gv_created_by = or_else (req_approved_by rq) ''system''\<rparr>] \<and>
         approval_requests db' = resolve_requests gid ''approve'' rq now (approval_requests db)"
proof -
  let ?row = "\<lparr>gv_ghost_id = gid, gv_version = ghost_version g + 1,
             gv_execution_plan = ghost_execution_plan g,
             gv_parameters = ghost_parameters g,
             gv_trigger = ghost_trigger g,
             gv_change_description = js_or (req_decision_note rq) ''Approved'',
             gv_created_by = or_else (req_approved_by rq) ''system''\<rparr>"
  have "insert_ghost_version ?row (ghost_versions db) = ghost_versions db @ [?row]"
    using assms(5) by (simp add: insert_ghost_version_fresh)
  with approve_ghost_approve [OF assms(1-4), of now] assms(6) show ?thesis
    by auto
qed

text \<open>The theorem on a ghost already approved, for the mobile client's request.\<close>

theorem approve_any_status_advances_version_witness:
  "resp_status (fst (approve_ghost ''t1'' None (sample_store 2 ''approved'') (mobile_approve_req ''g1''))) = 200 \<and>
   map_option ghost_version
     (ghosts (snd (approve_ghost ''t1'' None (sample_store 2 ''approved'') (mobile_approve_req ''g1''))) ''g1'') = Some 3 \<and>
   map_option ghost_status
     (ghosts (snd (approve_ghost ''t1'' None (sample_store 2 ''approved'') (mobile_approve_req ''g1''))) ''g1'') = Some ''approved'' \<and>
   map gv_created_by
     (ghost_versions (snd (approve_ghost ''t1'' None (sample_store 2 ''approved'') (mobile_approve_req ''g1''))))
       = [''mobile_user'']"
proof -
  obtain resp db' where r: "approve_ghost ''t1'' None (sample_store 2 ''approved'') (mobile_approve_req ''g1'') = (resp, db')"
    by (cases "approve_ghost ''t1'' None (sample_store 2 ''approved'') (mobile_approve_req ''g1'')")
  have a: "req_ghost_id (mobile_approve_req ''g1'') = Some ''g1''" "''g1'' \<noteq> []"
    "req_action (mobile_approve_req ''g1'') = Some ''approve''"
    by (simp_all add: mobile_approve_req_def)
  have b: "ghosts (sample_store 2 ''approved'') ''g1'' = Some (sample_ghost 2 ''approved'')"
    by (simp add: sample_store_def)
  have c: "\<not> list_ex (\<lambda>q. gv_ghost_id q = ''g1'' \<and> gv_version q = ghost_version (sample_ghost 2 ''approved'') + 1)
             (ghost_versions (sample_store 2 ''approved''))"
    by (simp add: sample_store_def)
  from approve_any_status_advances_version [OF a b c r]
  have "resp_status resp = 200 \<and> map_option ghost_version (ghosts db' ''g1'') = Some 3 \<and>
        map_option ghost_status (ghosts db' ''g1'') = Some ''approved'' \<and>
        map gv_created_by (ghost_versions db') = [''mobile_user'']"
    by (simp add: sample_ghost_def sample_store_def mobile_approve_req_def or_else_def truthy_def)
  then show ?thesis
    by (simp only: r fst_conv snd_conv)
qed

text \<open>
  Two approve calls in a row on a ghost at version 1 in status pending_approval: the second
  call finds it approved and advances the version again, to 3, with a second version row.
\<close>

theorem approve_twice_counterexample:
  "map_option ghost_version
     (ghosts (snd (approve_ghost ''t2'' None
        (snd (approve_ghost ''t1'' None (sample_store 1 ''pending_approval'') (approve_req ''g1'')))
        (approve_req ''g1''))) ''g1'') = Some 3 \<and>
   map gv_version (ghost_versions (snd (approve_ghost ''t2'' None
        (snd (approve_ghost ''t1'' None (sample_store 1 ''pending_approval'') (approve_req ''g1'')))
        (approve_req ''g1'')))) = [2, 3]"
  by (simp add: approve_ghost_def approve_req_def truthy_def or_else_def js_or_def statusMap_def Let_def
      sample_store_def sample_ghost_def insert_ghost_version_def resolve_requests_def)

subsection \<open>Execution engine: planner failure\<close>

lemma createExecutionPlan_stored:
  "gr_execution_plan ghost = Some plan \<Longrightarrow>
   createExecutionPlan env tick ghost ps = Inr (plan, tick)"
  by (simp add: createExecutionPlan_def)

lemma createExecutionPlan_llm_throws:
  "gr_execution_plan ghost = None \<Longrightarrow> env_llm env tick (PlannerPrompt ghost ps) = Inl err \<Longrightarrow>
   createExecutionPlan env tick ghost ps = Inl err"
  by (simp add: createExecutionPlan_def)

lemma createExecutionPlan_no_plan_in_content:
  "gr_execution_plan ghost = None \<Longrightarrow> env_llm env tick (PlannerPrompt ghost ps) = Inr content \<Longrightarrow>
   \<not> truthy content \<or> match_delims CHR ''['' CHR '']'' (the content) = None \<or>
     (\<exists>m. match_delims CHR ''['' CHR '']'' (the content) = Some m \<and> env_parse_plan env m = None) \<Longrightarrow>
   createExecutionPlan env tick ghost ps = Inr (default_plan, Suc tick)"
  by (auto simp add: createExecutionPlan_def split: option.splits)

text \<open>
  C9. The ghost is approved and stores no plan array, and \<^verbatim>\<open>llm.complete\<close> throws (the
  adapter throws on every non-2xx answer of the provider). The throw leaves
  \<^verbatim>\<open>createExecutionPlan\<close>, reaches the outer \<^verbatim>\<open>catch\<close> of the handler and is
  answered 500 \<^verbatim>\<open>EXECUTION_ERROR\<close>: no step runs, the execution row stays
  \<^verbatim>\<open>running\<close> and no \<^verbatim>\<open>execution_logs\<close> row is written.
\<close>

theorem planner_llm_error_surfaces_as_execution_error:
  "fst (executor_serve broken_env ''x1'' (exec_store0 None) ''POST'' (Some exec_req0))
     = \<lparr>xs_http = 500, xs_code = Some ''EXECUTION_ERROR'', xs_status = None, xs_steps = []\<rparr> \<and>
   st_execution_logs (snd (executor_serve broken_env ''x1'' (exec_store0 None) ''POST'' (Some exec_req0))) = [] \<and>
   map ex_status (st_executions (snd (executor_serve broken_env ''x1'' (exec_store0 None) ''POST'' (Some exec_req0))))
     = [''running'']"
  by (simp add: executor_serve_def exec_store0_def exec_req0_def truthy_def or_else_def
      createExecutionPlan_def broken_env_def exec_error_def Let_def)

subsection \<open>Execution engine: final status and self-healing\<close>

lemma all_failed_healed_skip:
  "sr_status s \<noteq> ''failed'' \<Longrightarrow> all_failed_healed (s # xs) = all_failed_healed xs"
  by (cases xs) simp_all

lemma attemptSelfHealing_Some_healed:
  assumes "attemptSelfHealing env tick n r g = (Some h, tick')"
  shows "is_self_healed h"
proof -
  from assms obtain altResult where "h = altResult\<lparr>sr_strategy := ''self_healed:'' @ sr_strategy altResult\<rparr>"
    by (auto simp add: attemptSelfHealing_def Let_def split: sum.splits option.splits if_splits prod.splits)
  then show ?thesis by (simp add: is_self_healed_def)
qed

lemma attemptSelfHealing_None_iff:
  "fst (attemptSelfHealing env tick n r g) = None \<longleftrightarrow> replan_fails env tick n r g"
  by (auto simp add: attemptSelfHealing_def replan_fails_def Let_def
      split: sum.splits option.splits if_splits prod.splits)

lemma attemptSelfHealing_None_tick:
  "attemptSelfHealing env tick n r g = (None, tick') \<Longrightarrow> tick' = Suc tick"
  by (auto simp add: attemptSelfHealing_def Let_def
      split: sum.splits option.splits if_splits prod.splits)

lemma run_plan_status:
  "run_plan env g tick plan = (steps, rows, overall, tick') \<Longrightarrow>
   (overall = ''completed'' \<or> overall = ''failed'') \<and>
   (overall = ''completed'' \<longleftrightarrow> all_failed_healed steps)"
proof (induction plan arbitrary: tick steps rows overall tick')
  case Nil
  then show ?case by auto
next
  case (Cons node rest)
  obtain r t1 where ex: "executeNode env tick node = (r, t1)"
    by (cases "executeNode env tick node")
  show ?case
  proof (cases "sr_status r = ''failed''")
    case True
    obtain ho t2 where heal: "attemptSelfHealing env t1 node r g = (ho, t2)"
      by (cases "attemptSelfHealing env t1 node r g")
    show ?thesis
    proof (cases ho)
      case None
      with Cons.prems ex True heal have "steps = [r]" "overall = ''failed''"
        by simp_all
      with True show ?thesis by simp
    next
      case (Some h)
      obtain steps' rows' ov' t3 where rec: "run_plan env g t2 rest = (steps', rows', ov', t3)"
        by (cases "run_plan env g t2 rest")
      with Cons.prems ex True heal Some have eq: "steps = r # h # steps'" "overall = ov'"
        by simp_all
      have "is_self_healed h"
        using heal Some attemptSelfHealing_Some_healed by blast
      with Cons.IH [OF rec] eq True show ?thesis by auto
    qed
  next
    case False
    obtain steps' rows' ov' t3 where rec: "run_plan env g t1 rest = (steps', rows', ov', t3)"
      by (cases "run_plan env g t1 rest")
    with Cons.prems ex False have eq: "steps = r # steps'" "overall = ov'"
      by simp_all
    with Cons.IH [OF rec] False show ?thesis
      by (auto simp add: all_failed_healed_skip)
  qed
qed

lemma all_ok_all_failed_healed:
  "\<forall>s\<in>set steps. sr_status s = ''completed'' \<or> sr_status s = ''skipped'' \<Longrightarrow>
   all_failed_healed steps"
  by (induction steps rule: all_failed_healed.induct) auto

lemma run_plan_stops:
  assumes "run_plan env g tick pre = (steps0, rows0, ''completed'', t0)"
    and "executeNode env t0 node = (r, t1)"
    and "sr_status r = ''failed''"
    and "replan_fails env t1 node r g"
  shows "run_plan env g tick (pre @ node # rest) = (steps0 @ [r], rows0 @ [r], ''failed'', Suc t1)"
  using assms(1)
proof (induction pre arbitrary: tick steps0 rows0)
  case Nil
  obtain ho t2 where heal: "attemptSelfHealing env t1 node r g = (ho, t2)"
    by (cases "attemptSelfHealing env t1 node r g")
  with assms(4) have "ho = None"
    using attemptSelfHealing_None_iff [of env t1 node r g] by simp
  with heal have "attemptSelfHealing env t1 node r g = (None, Suc t1)"
    using attemptSelfHealing_None_tick by blast
  with Nil assms(2,3) show ?case by simp
next
  case (Cons p pre)
  obtain q u1 where ex: "executeNode env tick p = (q, u1)"
    by (cases "executeNode env tick p")
  show ?case
  proof (cases "sr_status q = ''failed''")
    case True
    obtain ho u2 where heal: "attemptSelfHealing env u1 p q g = (ho, u2)"
      by (cases "attemptSelfHealing env u1 p q g")
    show ?thesis
    proof (cases ho)
      case None
      with Cons.prems ex True heal show ?thesis by simp
    next
      case (Some h)
      obtain steps' rows' ov' u3 where rec: "run_plan env g u2 pre = (steps', rows', ov', u3)"
        by (cases "run_plan env g u2 pre")
      with Cons.prems ex True heal Some
      have eq: "steps0 = q # h # steps'" "rows0 = q # rows'" "ov' = ''completed''" "u3 = t0"
        by simp_all
      from Cons.IH [of u2 steps' rows'] rec eq
      have "run_plan env g u2 (pre @ node # rest) = (steps' @ [r], rows' @ [r], ''failed'', Suc t1)"
        by simp
      with ex True heal Some eq show ?thesis by simp
    qed
  next
    case False
    obtain steps' rows' ov' u3 where rec: "run_plan env g u1 pre = (steps', rows', ov', u3)"
      by (cases "run_plan env g u1 pre")
    with Cons.prems ex False
    have eq: "steps0 = q # steps'" "rows0 = q # rows'" "ov' = ''completed''" "u3 = t0"
      by simp_all
    from Cons.IH [of u1 steps' rows'] rec eq
    have "run_plan env g u1 (pre @ node # rest) = (steps' @ [r], rows' @ [r], ''failed'', Suc t1)"
      by simp
    with ex False eq show ?thesis by simp
  qed
qed

lemma executor_serve_ok:
  assumes "executor_serve env xid db meth reqBody = (resp, db')"
    and "xs_status resp = Some overall"
  shows "\<exists>g plan t0 rows t1.
           run_plan env g t0 plan = (xs_steps resp, rows, overall, t1) \<and>
           (\<exists>l. st_execution_logs db' = st_execution_logs db @ [l] \<and> log_status l = overall \<and>
                 log_steps l = length (xs_steps resp))"
  using assms
  apply (auto simp add: executor_serve_def exec_error_def Let_def
      split: if_splits option.splits sum.splits prod.splits)
   apply blast+
  done

lemma broken_run:
  "executor_serve broken_env ''x1'' (exec_store0 (Some broken_plan)) ''POST'' (Some exec_req0) =
     (\<lparr>xs_http = 200, xs_code = None, xs_status = Some ''completed'',
       xs_steps =
         [\<lparr>sr_nodeId = ''s1'', sr_status = ''failed'', sr_strategy = ''direct'',
           sr_output = None, sr_error = Some ''connection refused''\<rparr>,
          \<lparr>sr_nodeId = ''s1_healed'', sr_status = ''completed'', sr_strategy = ''self_healed:human'',
           sr_output = Some ''upstream unavailable'', sr_error = None\<rparr>]\<rparr>,
      \<lparr>st_ghosts = st_ghosts (exec_store0 (Some broken_plan)),
       st_executions = [\<lparr>ex_id = ''x1'', ex_ghost_id = ''g1'', ex_status = ''completed'',
                          ex_step_count = Some 2\<rparr>],
       st_execution_steps =
         [(''x1'', \<lparr>sr_nodeId = ''s1'', sr_status = ''failed'', sr_strategy = ''direct'',
           sr_output = None, sr_error = Some ''connection refused''\<rparr>)],
       st_execution_logs =
         [\<lparr>log_execution_id = ''x1'', log_ghost_id = ''g1'', log_org_id = ''o1'',
           log_status = ''completed'', log_steps = 2,
           log_strategies_used = [''direct'', ''self_healed:human'']\<rparr>]\<rparr>)"
  by (simp add: executor_serve_def exec_store0_def exec_req0_def truthy_def or_else_def
      createExecutionPlan_def broken_env_def broken_plan_def heal_text_def executeNode_def failed_step_def
      attemptSelfHealing_def match_delims_def distinct_first_def Let_def)

text \<open>
  C1 (as amended), for every run of the handler in which no substitute step itself
  finished failed. The final status is completed or failed; it is completed exactly when
  every recorded step that finished failed is directly followed by a self-healed
  substitute, so in particular when every recorded step finished completed or skipped;
  the audit row carries the same status. If the replan for a failed step fails, the
  overall status is failed and the loop stops there: the failed step is the last record
  and the rest of the plan is not run.
\<close>

theorem execution_final_status:
  "(executor_serve env xid db meth reqBody = (resp, db') \<and> xs_status resp = Some overall \<and>
      (\<forall>s\<in>set (xs_steps resp). is_self_healed s \<longrightarrow> sr_status s \<noteq> ''failed'')
    \<longrightarrow> (overall = ''completed'' \<or> overall = ''failed'') \<and>
        (overall = ''completed'' \<longleftrightarrow> all_failed_healed (xs_steps resp)) \<and>
        ((\<forall>s\<in>set (xs_steps resp). sr_status s = ''completed'' \<or> sr_status s = ''skipped'')
           \<longrightarrow> overall = ''completed'') \<and>
        (\<exists>l. st_execution_logs db' = st_execution_logs db @ [l] \<and> log_status l = overall \<and>
              log_steps l = length (xs_steps resp))) \<and>
   (run_plan env g tick pre = (steps0, rows0, ''completed'', t0) \<and>
      executeNode env t0 node = (r, t1) \<and> sr_status r = ''failed'' \<and>
      replan_fails env t1 node r g
    \<longrightarrow> run_plan env g tick (pre @ node # rest) = (steps0 @ [r], rows0 @ [r], ''failed'', Suc t1))"
proof (intro conjI impI)
  assume a: "executor_serve env xid db meth reqBody = (resp, db') \<and> xs_status resp = Some overall \<and>
      (\<forall>s\<in>set (xs_steps resp). is_self_healed s \<longrightarrow> sr_status s \<noteq> ''failed'')"
  then obtain g' plan ta rows tb l where
    run: "run_plan env g' ta plan = (xs_steps resp, rows, overall, tb)" and
    log: "st_execution_logs db' = st_execution_logs db @ [l]" "log_status l = overall"
         "log_steps l = length (xs_steps resp)"
    using executor_serve_ok [of env xid db meth reqBody resp db' overall] by blast
  from run_plan_status [OF run]
  show "overall = ''completed'' \<or> overall = ''failed''"
    and iff: "overall = ''completed'' \<longleftrightarrow> all_failed_healed (xs_steps resp)"
    by blast+
  show "\<exists>l. st_execution_logs db' = st_execution_logs db @ [l] \<and> log_status l = overall \<and>
              log_steps l = length (xs_steps resp)"
    using log by blast
  assume "\<forall>s\<in>set (xs_steps resp). sr_status s = ''completed'' \<or> sr_status s = ''skipped''"
  then show "overall = ''completed''"
    using iff all_ok_all_failed_healed by blast
next
  assume "run_plan env g tick pre = (steps0, rows0, ''completed'', t0) \<and>
      executeNode env t0 node = (r, t1) \<and> sr_status r = ''failed'' \<and>
      replan_fails env t1 node r g"
  then show "run_plan env g tick (pre @ node # rest) = (steps0 @ [r], rows0 @ [r], ''failed'', Suc t1)"
    using run_plan_stops by blast
qed

theorem execution_final_status_witness:
  "xs_status (fst (executor_serve broken_env ''x1'' (exec_store0 (Some broken_plan)) ''POST'' (Some exec_req0)))
      = Some ''completed'' \<and>
   all_failed_healed (xs_steps (fst (executor_serve broken_env ''x1'' (exec_store0 (Some broken_plan)) ''POST'' (Some exec_req0)))) \<and>
   map log_status (st_execution_logs (snd (executor_serve broken_env ''x1'' (exec_store0 (Some broken_plan)) ''POST'' (Some exec_req0))))
      = [''completed''] \<and>
   run_plan dead_env ghost0 0 (broken_plan @ broken_plan) =
     ([\<lparr>sr_nodeId = ''s1'', sr_status = ''failed'', sr_strategy = ''direct'',
        sr_output = None, sr_error = Some ''connection refused''\<rparr>],
      [\<lparr>sr_nodeId = ''s1'', sr_status = ''failed'', sr_strategy = ''direct'',
        sr_output = None, sr_error = Some ''connection refused''\<rparr>], ''failed'', 2)"
proof -
  let ?resp = "fst (executor_serve broken_env ''x1'' (exec_store0 (Some broken_plan)) ''POST'' (Some exec_req0))"
  let ?db = "snd (executor_serve broken_env ''x1'' (exec_store0 (Some broken_plan)) ''POST'' (Some exec_req0))"
  let ?r = "\<lparr>sr_nodeId = ''s1'', sr_status = ''failed'', sr_strategy = ''direct'',
        sr_output = None, sr_error = Some ''connection refused''\<rparr>"
  have h1: "executor_serve broken_env ''x1'' (exec_store0 (Some broken_plan)) ''POST'' (Some exec_req0) = (?resp, ?db)"
    by simp
  have h2: "xs_status ?resp = Some ''completed''"
    by (subst broken_run) simp
  have h3: "\<forall>s\<in>set (xs_steps ?resp). is_self_healed s \<longrightarrow> sr_status s \<noteq> ''failed''"
    by (subst broken_run) (simp add: is_self_healed_def)
  have k1: "run_plan dead_env ghost0 0 [] = ([], [], ''completed'', 0)"
    by simp
  have k2: "executeNode dead_env 0 (hd broken_plan) = (?r, 1)"
    by (simp add: executeNode_def failed_step_def dead_env_def broken_env_def broken_plan_def)
  have k3: "sr_status ?r = ''failed''"
    by simp
  have k4: "replan_fails dead_env 1 (hd broken_plan) ?r ghost0"
    by (simp add: replan_fails_def dead_env_def)
  have split: "broken_plan @ broken_plan = [] @ hd broken_plan # broken_plan"
    by (simp add: broken_plan_def)
  from execution_final_status [where env = broken_env and xid = "''x1''"
      and db = "exec_store0 (Some broken_plan)" and meth = "''POST''"
      and reqBody = "Some exec_req0" and resp = ?resp and db' = ?db and overall = "''completed''",
      THEN conjunct1]
    execution_final_status [where env = dead_env and g = ghost0 and tick = 0 and pre = "[]"
      and ?steps0.0 = "[]" and ?rows0.0 = "[]" and ?t0.0 = 0
      and node = "hd broken_plan" and r = ?r and ?t1.0 = 1 and rest = broken_plan,
      THEN conjunct2]
    h1 h2 h3 k1 k2 k3 k4
  have "(''completed'' = ''completed'' \<longleftrightarrow> all_failed_healed (xs_steps ?resp)) \<and>
        (\<exists>l. st_execution_logs ?db = st_execution_logs (exec_store0 (Some broken_plan)) @ [l] \<and>
             log_status l = ''completed'') \<and>
        run_plan dead_env ghost0 0 ([] @ hd broken_plan # broken_plan) = ([] @ [?r], [] @ [?r], ''failed'', Suc 1)"
    by blast
  then show ?thesis
    using h2 by (auto simp add: split exec_store0_def)
qed

text \<open>
  Scenario 6 on the code: the API step fails, its substitute completes, and the execution
  is recorded as completed although the record holds a step that finished failed.
\<close>

theorem healed_execution_completed_counterexample:
  "xs_status (fst (executor_serve broken_env ''x1'' (exec_store0 (Some broken_plan)) ''POST'' (Some exec_req0)))
      = Some ''completed'' \<and>
   map sr_status (xs_steps (fst (executor_serve broken_env ''x1'' (exec_store0 (Some broken_plan)) ''POST'' (Some exec_req0))))
      = [''failed'', ''completed''] \<and>
   map sr_strategy (xs_steps (fst (executor_serve broken_env ''x1'' (exec_store0 (Some broken_plan)) ''POST'' (Some exec_req0))))
      = [''direct'', ''self_healed:human'']"
  by (subst broken_run)+ simp


subsection \<open>Intent encoder: the decision table\<close>

lemma fold_total_nodes:
  "fold (\<lambda>m sum. sum + addedNodes m + removedNodes m) ms acc
     = acc + sum_list (map (\<lambda>m. addedNodes m + removedNodes m) ms)"
  by (induction ms arbitrary: acc) simp_all

lemma filter_nonempty_list_ex: "length (filter P xs) > 0 \<longleftrightarrow> list_ex P xs"
  by (induction xs) auto

lemma classify_user_int:
  assumes "eventType e = ''user_int''"
  shows "classify e = (case first_match code_table e of Some lc \<Rightarrow> lc | None \<Rightarrow> (''unknown'', 0.2))"
  using assms
  by (simp add: classify_def classifyUserInteraction_def first_match_def code_table_def
      ev_action_def ev_tag_def ev_role_def ev_inputType_def ev_in_form_def ev_button_def
      ev_other_method_def ev_network_def Let_def)

lemma classify_dom_mut:
  assumes "eventType e = ''dom_mut''"
  shows "classify e = (case first_match code_table e of Some lc \<Rightarrow> lc | None \<Rightarrow> (''unknown'', 0.1))"
  using assms
  by (cases "p_mutations e")
    (auto simp add: classify_def classifyDomMutation_def first_match_def code_table_def
      ev_action_def ev_total_nodes_def ev_mutations_def ev_form_mutation_def ev_network_def
      ev_other_method_def fold_total_nodes list_ex_iff filter_empty_conv Let_def)

lemma classify_network:
  assumes "eventType e = ''network''"
  shows "classify e = (case first_match code_table e of Some lc \<Rightarrow> lc | None \<Rightarrow> (''unknown'', 0.1))"
  using assms
  by (simp add: classify_def classifyNetworkEvent_def first_match_def code_table_def
      ev_action_def ev_network_def ev_other_method_def ev_method_def ev_url_matches_def
      ev_status_def Let_def)

lemma classify_other:
  assumes "eventType e \<noteq> ''user_int''" "eventType e \<noteq> ''dom_mut''" "eventType e \<noteq> ''network''"
  shows "classify e = (case first_match code_table e of Some lc \<Rightarrow> lc | None \<Rightarrow> (''unknown'', 0.1))"
  using assms
  by (simp add: classify_def first_match_def code_table_def
      ev_action_def ev_network_def ev_other_method_def)


lemma classify_code_table:
  "classify e = (case first_match code_table e of Some lc \<Rightarrow> lc
                 | None \<Rightarrow> (''unknown'', if eventType e = ''user_int'' then 0.2 else 0.1))"
proof -
  consider "eventType e = ''user_int''" | "eventType e = ''dom_mut''" | "eventType e = ''network''"
    | "eventType e \<noteq> ''user_int''" "eventType e \<noteq> ''dom_mut''" "eventType e \<noteq> ''network''"
    by blast
  then show ?thesis
  proof cases
    case 1 then show ?thesis using classify_user_int by simp
  next
    case 2 then show ?thesis using classify_dom_mut by simp
  next
    case 3 then show ?thesis using classify_network by simp
  next
    case 4 then show ?thesis using classify_other by simp
  qed
qed

lemma classify_paste:
  "ev_action e ''paste'' \<Longrightarrow>
   classify e = (if ev_inputType e \<in> set [''password'', ''email'']
                 then (''authentication'', 0.85) else (''data_entry'', 0.9))"
  by (simp add: classify_def classifyUserInteraction_def ev_action_def ev_inputType_def Let_def)

lemma classify_plain_get:
  "ev_network e [''GET''] \<Longrightarrow> ev_status e < 400 \<Longrightarrow>
   \<not> ev_url_matches e [''search'', ''query'', ''export'', ''download''] \<Longrightarrow>
   classify e = (''navigation'', 0.4)"
  by (simp add: classify_def classifyNetworkEvent_def ev_network_def ev_method_def ev_status_def
      ev_url_matches_def Let_def)

text \<open>
  C5 (as amended). On every raw event the encoder returns the label and confidence of the
  first matching row of the table the code implements, and unknown with confidence 0.20
  (a user interaction) or 0.10 (anything else) when no row matches. In particular a
  paste yields data entry at 0.90 unless its target is a password or email field, where it
  yields authentication at 0.85; and a GET with a status below 400 and none of the URL
  keywords yields navigation at 0.40.
\<close>

theorem classify_follows_code_table:
  "follows_table code_table e \<and>
   classify e = (case first_match code_table e of Some lc \<Rightarrow> lc
                 | None \<Rightarrow> (''unknown'', if eventType e = ''user_int'' then 0.2 else 0.1)) \<and>
   (ev_action e ''paste'' \<longrightarrow>
      classify e = (if ev_inputType e \<in> set [''password'', ''email'']
                    then (''authentication'', 0.85) else (''data_entry'', 0.9))) \<and>
   (ev_network e [''GET''] \<and> ev_status e < 400 \<and>
      \<not> ev_url_matches e [''search'', ''query'', ''export'', ''download'']
      \<longrightarrow> classify e = (''navigation'', 0.4))"
proof -
  have "follows_table code_table e"
  proof (cases "first_match code_table e")
    case None
    with classify_code_table [of e] show ?thesis
      by (simp add: follows_table_def)
  next
    case (Some lc)
    with classify_code_table [of e] show ?thesis
      by (simp add: follows_table_def)
  qed
  then show ?thesis
    using classify_code_table classify_paste classify_plain_get by blast
qed

lemma paste_password_action: "ev_action (user_event ''paste'') ''paste''"
  by (simp add: ev_action_def user_event_def)

lemma plain_get_facts:
  "ev_network plain_get [''GET'']" "ev_status plain_get < 400"
  "\<not> ev_url_matches plain_get [''search'', ''query'', ''export'', ''download'']"
  by (simp_all add: ev_network_def ev_method_def ev_status_def ev_url_matches_def plain_get_def
      or_else_def toUpperCase_def toUpperCase_char_def)

theorem classify_follows_code_table_witness:
  "classify (user_event ''paste'') = (''authentication'', 0.85) \<and>
   classify plain_get = (''navigation'', 0.4)"
proof -
  have "ev_inputType (user_event ''paste'') \<in> set [''password'', ''email'']"
    by (simp add: ev_inputType_def user_event_def password_field_def or_else_def)
  with classify_follows_code_table [of "user_event ''paste''"] paste_password_action
  have a: "classify (user_event ''paste'') = (''authentication'', 0.85)" by metis
  from classify_follows_code_table [of plain_get] plain_get_facts
  have b: "classify plain_get = (''navigation'', 0.4)" by blast
  from a b show ?thesis by simp
qed

text \<open>
  Against the table of the specification: a paste into a password field matches its second
  row (data entry, 0.90) and the code answers authentication at 0.85; a plain GET matches
  no row and the code answers navigation at 0.40, not unknown.
\<close>

theorem classify_spec_table_counterexample:
  "first_match spec_table (user_event ''paste'') = Some (''data_entry'', 0.90) \<and>
   classify (user_event ''paste'') = (''authentication'', 0.85) \<and>
   \<not> follows_table spec_table (user_event ''paste'') \<and>
   first_match spec_table plain_get = None \<and>
   classify plain_get = (''navigation'', 0.4) \<and>
   \<not> follows_table spec_table plain_get"
proof -
  have a: "first_match spec_table (user_event ''paste'') = Some (''data_entry'', 0.90)"
    by (simp add: first_match_def spec_table_def ev_action_def user_event_def)
  have b: "classify (user_event ''paste'') = (''authentication'', 0.85)"
    by (simp add: classify_def classifyUserInteraction_def user_event_def password_field_def
        or_else_def Let_def)
  have c: "first_match spec_table plain_get = None"
    using plain_get_facts
    by (simp add: first_match_def spec_table_def ev_action_def ev_network_def ev_url_matches_def
        plain_get_def)
  have d: "classify plain_get = (''navigation'', 0.4)"
    using classify_plain_get plain_get_facts by blast
  show ?thesis
    by (simp add: follows_table_def a b c d)
qed


subsection \<open>Session fingerprint\<close>























lemma length_hex: "length (concat (map hex_byte bs)) = 2 * length bs"
  by (induction bs) (simp_all add: hex_byte_def)










subsection \<open>Temporal intent clustering\<close>

lemma walk_sessions:
  "fold add_to_session walk_events [] =
     [(''s1'', [walk_event 5, walk_event 4, walk_event 3, walk_event 2, walk_event 1])]"
  by (simp add: walk_events_def add_to_session_def walk_event_def)

lemma walk_sorted:
  "sort_key se_sequenceNumber [walk_event 5, walk_event 4, walk_event 3, walk_event 2, walk_event 1]
     = [walk_event 1, walk_event 2, walk_event 3, walk_event 4, walk_event 5]"
  by (simp add: walk_event_def)

lemma session_windows_5:
  assumes "sort_key se_sequenceNumber evs = [a, b, c, d, e]"
  shows "session_windows 50 evs = [mk_sequence [a, b, c, d, e], mk_sequence [b, c, d, e], mk_sequence [c, d, e]]"
proof -
  have u: "[0 ..< Suc (length [a, b, c, d, e] - 3)] = [0, 1, 2]"
    by (simp add: upt_rec_numeral)
  have w: "js_slice 0 (min (0 + 50) (length [a, b, c, d, e])) [a, b, c, d, e] = [a, b, c, d, e]"
    "js_slice 1 (min (1 + 50) (length [a, b, c, d, e])) [a, b, c, d, e] = [b, c, d, e]"
    "js_slice 2 (min (2 + 50) (length [a, b, c, d, e])) [a, b, c, d, e] = [c, d, e]"
    by (simp_all add: js_slice_def)
  show ?thesis
    unfolding session_windows_def assms Let_def u
    by (simp only: list.map w concat.simps append.simps) simp
qed

lemma average_same:
  "averageVectors [[1, 0], [1, 0], [1, 0]] = [1, 0]"
  "averageVectors [[1, 0], [1, 0], [1, 0], [1, 0]] = [1, 0]"
  "averageVectors [[1, 0], [1, 0], [1, 0], [1, 0], [1, 0]] = [1, 0]"
  by (simp_all add: averageVectors_def upt_rec_numeral)

lemma walk_fields:
  "se_intentVector (walk_event k) = [1, 0]"
  "se_timestampBucket (walk_event k) = 1704103200000 + (k - 1) * 300000"
  "se_intentLabel (walk_event k) = ''data_entry''"
  "se_intentConfidence (walk_event k) = 0.9"
  "se_structuralHash (walk_event k) = ''0a1b2c3d''"
  by (simp_all add: walk_event_def)


lemma walk_mk:
  "embedding w0 = [1, 0]" "embedding w1 = [1, 0]" "embedding w2 = [1, 0]"
  "seq_timestamp w0 = 1704103200000" "seq_timestamp w1 = 1704103500000"
  "seq_timestamp w2 = 1704103800000"
  by (simp_all add: w0_def w1_def w2_def mk_sequence_def walk_fields average_same)

lemma walk_labels:
  "map se_intentLabel (seq_events w0) = replicate 5 ''data_entry''"
  "map se_intentLabel (seq_events w1) = replicate 4 ''data_entry''"
  "map se_intentLabel (seq_events w2) = replicate 3 ''data_entry''"
  "map se_intentConfidence (seq_events w0) = replicate 5 0.9"
  "map se_intentConfidence (seq_events w1) = replicate 4 0.9"
  "map se_intentConfidence (seq_events w2) = replicate 3 0.9"
  by (simp_all add: w0_def w1_def w2_def mk_sequence_def walk_fields numeral_eq_Suc)

lemma walk_sequences: "extractSequences walk_events WINDOW_SIZE = [w0, w1, w2]"
  unfolding extractSequences_def walk_sessions WINDOW_SIZE_def w0_def w1_def w2_def
  by (simp add: session_windows_5 [OF walk_sorted])

lemma cos_same: "cosineSimilarity [1, 0] [1, 0] = 1"
  by (simp add: cosineSimilarity_def)

lemma walk_joins: "joins w0 w1" "joins w0 w2"
  by (simp_all add: joins_def walk_mk cos_same TEMPORAL_WINDOW_MS_def)

lemma walk_clusters: "clusterSequences [w0, w1, w2] = [mk_cluster [w0, w1, w2]]"
  by (simp add: walk_joins)


lemma members_mk_cluster: "members (mk_cluster ms) = ms"
  by (simp add: mk_cluster_def)

lemma walk_join_strings:
  "join '','' (replicate 5 ''data_entry'') \<noteq> join '','' (replicate 4 ''data_entry'')"
  "join '','' (replicate 5 ''data_entry'') \<noteq> join '','' (replicate 3 ''data_entry'')"
  "join '','' (replicate 4 ''data_entry'') \<noteq> join '','' (replicate 3 ''data_entry'')"
  by (simp_all add: numeral_eq_Suc)

lemma walk_lengths:
  "length (seq_events w0) = 5" "length (seq_events w1) = 4" "length (seq_events w2) = 3"
  by (simp_all add: w0_def w1_def w2_def mk_sequence_def)

lemma walk_stat: "computeStatisticalConfidence (mk_cluster [w0, w1, w2]) = 37 / 75"
  using walk_join_strings
  by (simp add: computeStatisticalConfidence_def members_mk_cluster MIN_CLUSTER_SIZE_def
      walk_labels walk_lengths Let_def)
    (simp add: numeral_eq_Suc)

lemma walk_round: "js_round (348 / 5) = 70"
  by (simp add: js_round_def)

lemma walk_abstract:
  "abstractCluster walk_env 0 (mk_cluster [w0, w1, w2]) ''o1'' =
     Inr (Some \<lparr>dp_id = ''p1'', dp_orgId = ''o1'',
        intentSequence = [''data_entry''], structuralHashes = [''0a1b2c3d''],
        occurrences = 3, dp_confidence = 0.7, suggestedName = ''Order entry'',
        suggestedDescription = [], firstSeen = 1704103800000, lastSeen = 1704103200000\<rparr>)"
proof -
  have a: "map se_intentLabel (seq_events w0) @ map se_intentLabel (seq_events w1) @
        map se_intentLabel (seq_events w2) = replicate 12 ''data_entry''"
    by (simp add: walk_labels numeral_eq_Suc)
  have b: "map se_structuralHash (seq_events w0) @ map se_structuralHash (seq_events w1) @
        map se_structuralHash (seq_events w2) = replicate 12 ''0a1b2c3d''"
    by (simp add: w0_def w1_def w2_def mk_sequence_def walk_fields numeral_eq_Suc)
  have c: "distinct_first (replicate 12 ''data_entry'') = [''data_entry'']"
    "distinct_first (replicate 12 ''0a1b2c3d'') = [''0a1b2c3d'']"
    by (simp_all add: distinct_first_def numeral_eq_Suc)
  show ?thesis
    by (simp add: abstractCluster_def walk_env_def truthy_def match_delims_def or_else_def
        members_mk_cluster a b c walk_stat walk_round walk_mk semanticConfidence_def Let_def)
qed

lemma walk_serve:
  "tic_serve walk_env (Some ''o1'') (Inr walk_events) =
     \<lparr>tr_http = 200, tr_code = None,
      tr_rows = [(\<lparr>dp_id = ''p1'', dp_orgId = ''o1'',
        intentSequence = [''data_entry''], structuralHashes = [''0a1b2c3d''],
        occurrences = 3, dp_confidence = 0.7, suggestedName = ''Order entry'',
        suggestedDescription = [], firstSeen = 1704103800000, lastSeen = 1704103200000\<rparr>,
        ''needs_review'')]\<rparr>"
proof -
  have len: "\<not> length walk_events < 3"
    by (simp add: walk_events_def)
  have valid: "filter (\<lambda>c. length (members c) \<ge> MIN_CLUSTER_SIZE) [mk_cluster [w0, w1, w2]]
      = [mk_cluster [w0, w1, w2]]"
    by (simp add: members_mk_cluster MIN_CLUSTER_SIZE_def)
  show ?thesis
    unfolding tic_serve_def
    by (simp add: len truthy_def walk_sequences walk_clusters valid walk_abstract
        REVIEW_THRESHOLD_def AUTO_SUGGEST_THRESHOLD_def Let_def members_mk_cluster
        MIN_CLUSTER_SIZE_def del: clusterSequences.simps)
qed







text \<open>
  C6. One session of five events, five minutes apart. Its three windows form one cluster,
  in the order of their first events, 10:00, 10:05 and 10:10. The pattern takes
  \<^verbatim>\<open>firstSeen\<close> from the last member and \<^verbatim>\<open>lastSeen\<close> from the first: first seen
  10:10, last seen 10:00.
\<close>

theorem pattern_first_seen_after_last_seen:
  "map seq_timestamp (extractSequences walk_events WINDOW_SIZE)
     = [1704103200000, 1704103500000, 1704103800000] \<and>
   map (\<lambda>row. (firstSeen (fst row), lastSeen (fst row)))
       (tr_rows (tic_serve walk_env (Some ''o1'') (Inr walk_events)))
     = [(1704103800000, 1704103200000)]"
  by (simp add: walk_serve walk_sequences walk_mk)



subsection \<open>Privacy pipeline: a password event\<close>

lemma scrub_total:
  assumes "engine_ok ex t"
  shows "\<exists>r. scrub ex cs t = Some r"
proof -
  from collect_entities_total [OF assms, of pattern_types]
  obtain es where "collect_entities ex t pattern_types = Some es" by blast
  then show ?thesis by (simp add: scrub_def detect_def)
qed

lemma containsPii_total:
  assumes "engine_ok ex t"
  shows "\<exists>r. containsPii ex t = Some r"
proof -
  from collect_entities_total [OF assms, of pattern_types]
  obtain es where "collect_entities ex t pattern_types = Some es" by blast
  then show ?thesis by (simp add: containsPii_def detect_def)
qed

lemma scrub_field_total:
  assumes "\<forall>t. engine_ok ex t"
  shows "\<exists>f' cs'. scrub_field ex cs f = Some (f', cs')"
proof (cases "truthy f")
  case True
  from assms have "engine_ok ex (the f)" by simp
  from scrub_total [OF this, of cs] obtain r where "scrub ex cs (the f) = Some r" by blast
  with True show ?thesis by (cases r) (simp add: scrub_field_def)
next
  case False
  then show ?thesis by (simp add: scrub_field_def)
qed

lemma scrub_mutations_total:
  assumes "\<forall>t. engine_ok ex t"
  shows "\<exists>ms' cs'. scrub_mutations ex cs ms = Some (ms', cs')"
proof (induction ms arbitrary: cs)
  case Nil
  show ?case by simp
next
  case (Cons m ms)
  from scrub_field_total [OF assms] obtain ov cs1 where a: "scrub_field ex cs (oldValue m) = Some (ov, cs1)" by blast
  from scrub_field_total [OF assms] obtain nv cs2 where b: "scrub_field ex cs1 (newValue m) = Some (nv, cs2)" by blast
  from Cons [of cs2] obtain ms' cs3 where c: "scrub_mutations ex cs2 ms = Some (ms', cs3)" by blast
  show ?case by (simp add: a b c)
qed

text \<open>Scrubbing returns, and leaves alone what classification and the vector read.\<close>

lemma scrubEvent_total:
  assumes "\<forall>t. engine_ok (pe_exec env) t"
  shows "\<exists>e' cs'. scrubEvent env cs event = Some (e', cs')
           \<and> eventType e' = eventType event \<and> p_action e' = p_action event
           \<and> p_method e' = p_method event \<and> p_statusCode e' = p_statusCode event
           \<and> map_option inputType (p_target e') = map_option inputType (p_target event)
           \<and> map_option tagName (p_target e') = map_option tagName (p_target event)
           \<and> map_option aria_role (p_target e') = map_option aria_role (p_target event)
           \<and> map_option domPath (p_target e') = map_option domPath (p_target event)
           \<and> map_option position (p_target e') = map_option position (p_target event)"
proof -
  let ?ex = "pe_exec env"
  from scrub_field_total [OF assms] obtain v cs1 where a: "scrub_field ?ex cs (p_value event) = Some (v, cs1)" by blast
  from scrub_field_total [OF assms] obtain msg cs2 where b: "scrub_field ?ex cs1 (p_message event) = Some (msg, cs2)" by blast
  define T where "T = (case p_target event of
              None \<Rightarrow> Some (None, cs2)
            | Some t \<Rightarrow>
                if textPreview t = [] then Some (Some t, cs2)
                else map_option (\<lambda>(s, cs'). (Some (t\<lparr>textPreview := s\<rparr>), cs'))
                       (scrub ?ex cs2 (textPreview t)))"
  have "\<exists>tgt cs3. T = Some (tgt, cs3)
           \<and> map_option inputType tgt = map_option inputType (p_target event)
           \<and> map_option tagName tgt = map_option tagName (p_target event)
           \<and> map_option aria_role tgt = map_option aria_role (p_target event)
           \<and> map_option domPath tgt = map_option domPath (p_target event)
           \<and> map_option position tgt = map_option position (p_target event)"
  proof (cases "p_target event")
    case None
    then show ?thesis by (simp add: T_def)
  next
    case (Some t)
    from assms have "engine_ok ?ex (textPreview t)" by simp
    from scrub_total [OF this, of cs2] obtain r where "scrub ?ex cs2 (textPreview t) = Some r" by blast
    with Some show ?thesis by (cases r) (simp add: T_def)
  qed
  then obtain tgt cs3 where c: "T = Some (tgt, cs3)"
     and tg: "map_option inputType tgt = map_option inputType (p_target event)"
           "map_option tagName tgt = map_option tagName (p_target event)"
           "map_option aria_role tgt = map_option aria_role (p_target event)"
           "map_option domPath tgt = map_option domPath (p_target event)"
           "map_option position tgt = map_option position (p_target event)" by blast
  define M where "M = (case p_mutations event of
              None \<Rightarrow> Some (None, cs3)
            | Some ms \<Rightarrow> map_option (\<lambda>(ms', cs'). (Some ms', cs')) (scrub_mutations ?ex cs3 ms))"
  have "\<exists>muts cs4. M = Some (muts, cs4)"
  proof (cases "p_mutations event")
    case None
    then show ?thesis by (simp add: M_def)
  next
    case (Some ms)
    from scrub_mutations_total [OF assms, of cs3 ms] obtain ms' cs' where "scrub_mutations ?ex cs3 ms = Some (ms', cs')" by blast
    with Some show ?thesis by (simp add: M_def)
  qed
  then obtain muts cs4 where d: "M = Some (muts, cs4)" by blast
  define U where "U = (if truthy (p_url event)
            then (case containsPii ?ex (the (p_url event)) of
                    None \<Rightarrow> None
                  | Some True \<Rightarrow> scrub_field ?ex cs4 (p_url event)
                  | Some False \<Rightarrow> Some (p_url event, cs4))
            else Some (p_url event, cs4))"
  have "\<exists>url cs5. U = Some (url, cs5)"
  proof (cases "truthy (p_url event)")
    case False
    then show ?thesis by (simp add: U_def)
  next
    case True
    from assms have "engine_ok ?ex (the (p_url event))" by simp
    from containsPii_total [OF this] obtain r where r: "containsPii ?ex (the (p_url event)) = Some r" by blast
    from scrub_field_total [OF assms, of cs4 "p_url event"] obtain f' cs' where "scrub_field ?ex cs4 (p_url event) = Some (f', cs')" by blast
    with True r show ?thesis by (cases r) (simp_all add: U_def)
  qed
  then obtain url cs5 where e: "U = Some (url, cs5)" by blast
  have "scrubEvent env cs event = Some (event\<lparr>p_value := v, p_message := msg, p_target := tgt, p_mutations := muts,
                       p_url := url, ctx_url := pe_hashUrl env (ctx_url event)\<rparr>, cs5)"
    unfolding scrubEvent_def Let_def
    using a b c d e unfolding T_def M_def U_def by simp
  with tg show ?thesis by simp
qed

lemma length_lcg_vector: "length (lcg_vector n r) = n"
  by (induction n arbitrary: r) simp_all

lemma lcg_vector_nonzero: "x \<in> set (lcg_vector n r) \<Longrightarrow> x \<noteq> 0"
proof (induction n arbitrary: r)
  case 0
  then show ?case by simp
next
  case (Suc n)
  have "real_of_int k / 0x7fffffff * 2 - 1 \<noteq> 0" for k :: int
  proof
    assume "real_of_int k / 0x7fffffff * 2 - 1 = 0"
    then have "real_of_int (2 * k) = real_of_int 2147483647" by simp
    then have "2 * k = 2147483647" by (simp only: of_int_eq_iff)
    then show False by presburger
  qed
  with Suc show ?case by auto
qed

lemma length_extractFeatures: "length (extractFeatures e) = 128"
  by (simp add: extractFeatures_def Let_def split: option.splits)

lemma last_extractFeatures: "last (extractFeatures e) = 0"
  by (simp add: extractFeatures_def Let_def split: option.splits)

lemma fold_sq: "fold (\<lambda>v s. s + v * v) xs a = a + sum_list (map (\<lambda>v. v * v) xs)"
  for a :: real
  by (induction xs arbitrary: a) simp_all

lemma l2norm_sum: "l2norm xs = sqrt (sum_list (map (\<lambda>v. v * v) xs))"
  by (simp add: l2norm_def fold_sq)

lemma sum_sq_nonneg: "0 \<le> sum_list (map (\<lambda>v. v * v) xs)" for xs :: "real list"
  by (induction xs) simp_all

lemma sum_sq_member: "x \<in> set xs \<Longrightarrow> x * x \<le> sum_list (map (\<lambda>v. v * v) xs)" for x :: real
proof (induction xs)
  case Nil
  then show ?case by simp
next
  case (Cons a xs)
  show ?case
  proof (cases "x = a")
    case True
    with sum_sq_nonneg [of xs] show ?thesis by simp
  next
    case False
    with Cons have "x * x \<le> sum_list (map (\<lambda>v. v * v) xs)" by simp
    moreover have "0 \<le> a * a" by simp
    ultimately have "x * x \<le> a * a + sum_list (map (\<lambda>v. v * v) xs)" by (rule add_increasing [rotated])
    then show ?thesis by simp
  qed
qed

lemma l2norm_pos: "x \<in> set xs \<Longrightarrow> x \<noteq> 0 \<Longrightarrow> 0 < l2norm xs"
proof -
  assume a: "x \<in> set xs" "x \<noteq> 0"
  then have "0 < x * x" by (simp add: zero_less_mult_iff) (auto simp: not_less)
  with sum_sq_member [OF a(1)] show ?thesis by (simp add: l2norm_sum)
qed

lemma js_round_near: "\<bar>js_round x - x\<bar> \<le> 1 / 2"
  unfolding js_round_def by linarith

lemma sum_list_diff_bound:
  fixes f g :: "'a \<Rightarrow> real"
  assumes "\<forall>x\<in>set xs. \<bar>f x - g x\<bar> \<le> c"
  shows "\<bar>sum_list (map f xs) - sum_list (map g xs)\<bar> \<le> c * real (length xs)"
  using assms
proof (induction xs)
  case Nil
  then show ?case by simp
next
  case (Cons a xs)
  then have "\<bar>f a - g a\<bar> \<le> c" "\<bar>sum_list (map f xs) - sum_list (map g xs)\<bar> \<le> c * real (length xs)"
    by simp_all
  then show ?case by (simp add: algebra_simps) 
qed

lemma normalised_sum:
  fixes xs :: "real list"
  assumes N: "N = l2norm xs" "0 < N"
  shows "sum_list (map (\<lambda>v. (v / N) * (v / N)) xs) = 1"
proof -
  have "sum_list (map (\<lambda>v. (v / N) * (v / N)) xs) = sum_list (map (\<lambda>v. v * v) xs) / (N * N)"
    by (induction xs) (simp_all add: add_divide_distrib)
  also have "N * N = sum_list (map (\<lambda>v. v * v) xs)"
    using N sum_sq_nonneg [of xs] by (simp add: l2norm_sum)
  finally show ?thesis using N by (simp add: l2norm_sum)
qed

lemma quantised_near:
  fixes w :: real
  assumes "\<bar>w\<bar> \<le> 1"
  shows "\<bar>(js_round (w * 10000) / 10000) * (js_round (w * 10000) / 10000) - w * w\<bar> \<le> 10001 / 100000000"
proof -
  define q where "q = js_round (w * 10000) / 10000"
  have "\<bar>js_round (w * 10000) - w * 10000\<bar> \<le> 1 / 2" by (rule js_round_near)
  then have d: "\<bar>q - w\<bar> \<le> 1 / 20000" unfolding q_def by (simp add: field_simps abs_le_iff)
  with assms have s: "\<bar>q + w\<bar> \<le> 2 + 1 / 20000" by linarith
  have "q * q - w * w = (q - w) * (q + w)" by (simp add: algebra_simps)
  then have "\<bar>q * q - w * w\<bar> = \<bar>q - w\<bar> * \<bar>q + w\<bar>" by (simp add: abs_mult)
  also have "\<dots> \<le> (1 / 20000) * (2 + 1 / 20000)"
    using d s by (intro mult_mono) simp_all
  also have "\<dots> \<le> 10001 / 100000000" by simp
  finally show ?thesis unfolding q_def .
qed

lemma normalise_norm:
  fixes xs :: "real list"
  assumes N: "N = l2norm xs" "0 < N" and len: "length xs = 128"
  shows "\<bar>l2norm (map (\<lambda>v. js_round (v / N * 10000) / 10000) xs) - 1\<bar> \<le> 1 / 100"
proof -
  let ?q = "\<lambda>v. js_round (v / N * 10000) / 10000"
  define S where "S = sum_list (map (\<lambda>v. ?q v * ?q v) xs)"
  have w: "\<bar>v / N\<bar> \<le> 1" if "v \<in> set xs" for v
  proof -
    from sum_sq_member [OF that] have "v * v \<le> N * N"
      using N sum_sq_nonneg [of xs] by (simp add: l2norm_sum)
    then have "\<bar>v\<bar> \<le> \<bar>N\<bar>" by (rule abs_le_square_iff [THEN iffD2, unfolded power2_eq_square])
    with N show ?thesis by simp
  qed
  have "\<forall>v\<in>set xs. \<bar>?q v * ?q v - (v / N) * (v / N)\<bar> \<le> 10001 / 100000000"
    using quantised_near [OF w] by blast
  from sum_list_diff_bound [OF this]
  have "\<bar>S - sum_list (map (\<lambda>v. (v / N) * (v / N)) xs)\<bar> \<le> 10001 / 100000000 * real (length xs)"
    unfolding S_def .
  then have S: "\<bar>S - 1\<bar> \<le> 10001 / 100000000 * 128"
    unfolding normalised_sum [OF N] len by simp
  have eq: "l2norm (map ?q xs) = sqrt S" by (simp add: l2norm_sum comp_def S_def)
  have lo: "(99 / 100) ^ 2 \<le> S" using S unfolding power2_eq_square by linarith
  have hi: "S \<le> (101 / 100) ^ 2" using S unfolding power2_eq_square by linarith
  have "99 / 100 \<le> sqrt S" using lo by (rule real_le_rsqrt)
  moreover have "sqrt S \<le> 101 / 100" using hi by (intro real_le_lsqrt) simp_all
  ultimately show ?thesis unfolding eq by linarith
qed

lemma generateVector_norm:
  "length (generateVector label e) = 128 \<and> \<bar>l2norm (generateVector label e) - 1\<bar> \<le> 1 / 100"
proof -
  define base where "base = lcg_vector 128 (INTENT_SEEDS label)"
  define mixed where "mixed = map (\<lambda>(v, f). v * 0.7 + f * 0.3) (zip base (extractFeatures e))"
  have lb: "length base = 128" by (simp add: base_def length_lcg_vector)
  have len: "length mixed = 128" by (simp add: mixed_def lb length_extractFeatures)
  have ne: "mixed \<noteq> []" using len by auto
  have "last mixed = mixed ! 127" using len by (simp add: last_conv_nth ne)
  also have "\<dots> = base ! 127 * 0.7 + extractFeatures e ! 127 * 0.3"
    by (simp add: mixed_def lb length_extractFeatures)
  also have "extractFeatures e ! 127 = last (extractFeatures e)"
    using length_extractFeatures [of e] by (subst last_conv_nth) auto
  finally have l: "last mixed = base ! 127 * 0.7" by (simp add: last_extractFeatures)
  have "base ! 127 \<in> set base" using lb by (intro nth_mem) simp
  then have "base ! 127 \<noteq> 0" unfolding base_def by (rule lcg_vector_nonzero)
  with l have "last mixed \<noteq> 0" by simp
  moreover have "last mixed \<in> set mixed" using ne by simp
  ultimately have pos: "0 < l2norm mixed" by (intro l2norm_pos)
  have gv: "generateVector label e = map (\<lambda>v. js_round (v / l2norm mixed * 10000) / 10000) mixed"
    unfolding generateVector_def Let_def base_def [symmetric] mixed_def [symmetric]
    using pos by simp
  show ?thesis unfolding gv using normalise_norm [OF refl pos len] len by simp
qed

lemma process_fields:
  assumes "scrubEvent env (entityCounters pl) event = Some (e', cs')"
    and "anonymizeTimestamp (pe_bucket env) (pe_rand env (2 * length (generateVector (fst (classify e')) e')))
           (pe_now env 0) = Inr stamp"
    and "generateSessionFingerprint (pe_hmac env) (pl_deviceId pl) (pl_userId pl) (pe_now env 1) = Some fp"
  shows "\<exists>out pl'. process env pl event = Some (Inr out, pl')
           \<and> out_intentLabel out = fst (classify e')
           \<and> out_intentConfidence out = js_round (snd (classify e') * 100) / 100
           \<and> out_intentVector out = perturbVector (pe_rand env) (generateVector (fst (classify e')) e')
           \<and> out_timestampBucket out = stamp
           \<and> out_sessionFingerprint out = fp
           \<and> out_sequenceNumber out = Suc (sequenceCounter pl)"
  using assms by (simp add: process_def encode_intent_def Let_def split_beta)

lemma process_throws:
  assumes "scrubEvent env (entityCounters pl) event = Some (e', cs')"
    and "anonymizeTimestamp (pe_bucket env) (pe_rand env (2 * length (generateVector (fst (classify e')) e')))
           (pe_now env 0) = Inl err"
  shows "process env pl event = Some (Inl err, pl\<lparr>entityCounters := cs'\<rparr>)"
  using assms by (simp add: process_def encode_intent_def Let_def split_beta)

lemma extractFeatures_cong:
  assumes "p_action e' = p_action e" "p_method e' = p_method e" "p_statusCode e' = p_statusCode e"
    "map_option tagName (p_target e') = map_option tagName (p_target e)"
    "map_option domPath (p_target e') = map_option domPath (p_target e)"
    "map_option position (p_target e') = map_option position (p_target e)"
  shows "extractFeatures e' = extractFeatures e"
  using assms by (cases "p_target e'"; cases "p_target e") (simp_all add: extractFeatures_def)

lemma classify_password:
  assumes "eventType e = ''user_int''"
    "p_action e = Some ''input'' \<or> p_action e = Some ''paste''"
    "map_option inputType (p_target e) = Some (Some ''password'')"
  shows "classify e = (''authentication'', 0.85)"
  using assms by (cases "p_target e") (auto simp add: classify_def classifyUserInteraction_def or_else_def truthy_def)

lemma classify_click_password:
  assumes "eventType e = ''user_int''" "p_action e = Some ''click''"
    "map_option inputType (p_target e) = Some (Some ''password'')"
    "map_option tagName (p_target e) = Some ''input''"
    "map_option aria_role (p_target e) = Some None"
  shows "classify e = (''unknown'', 0.2)"
  using assms by (cases "p_target e") (auto simp add: classify_def classifyUserInteraction_def or_else_def truthy_def)

lemma js_round_85: "js_round (0.85 * 100) / 100 = 0.85"
  by (simp add: js_round_def)

lemma js_round_20: "js_round (0.2 * 100) / 100 = 0.2"
  by (simp add: js_round_def)

lemma sum_list_lower:
  fixes f :: "'a \<Rightarrow> real"
  assumes "\<forall>x\<in>set xs. c \<le> f x"
  shows "c * real (length xs) \<le> sum_list (map f xs)"
  using assms by (induction xs) (auto simp add: algebra_simps)

lemma member_le_l2norm: "x \<in> set xs \<Longrightarrow> \<bar>x\<bar> \<le> l2norm xs"
proof -
  assume "x \<in> set xs"
  from sum_sq_member [OF this] have "sqrt (x * x) \<le> l2norm xs"
    unfolding l2norm_sum by (rule real_sqrt_le_mono)
  then show ?thesis by simp
qed

lemma sqrt2_lower: "141 / 100 < sqrt 2"
  by (rule real_less_rsqrt) (simp add: power2_eq_square)

lemma quiet_noise: "gaussianNoise 0 (sqrt 2 / 1.0) (exp (- 1 / 2)) 0 = JNum (sqrt 2)"
  by (simp add: gaussianNoise_def)

lemma zero_noise: "gaussianNoise 0 (sqrt 2 / 1.0) 0 0 = JPosInf"
  by (simp add: gaussianNoise_def)

lemma laplacian_zero: "0 < scale \<Longrightarrow> laplacianNoise scale 0 = JNegInf"
  by (simp add: laplacianNoise_def)

lemma anonymizeTimestamp_zero: "anonymizeTimestamp bucket 0 now = Inl RangeError"
  by (simp add: anonymizeTimestamp_def laplacian_zero)

lemma laplacian_finite:
  assumes "0 < u0" "u0 < 1"
  shows "laplacianNoise scale u0 = JNum (- scale * sgn (u0 - 0.5) * ln (1 - 2 * \<bar>u0 - 0.5\<bar>))"
proof -
  from assms have "0 < 1 - 2 * \<bar>u0 - 0.5\<bar>" by (simp add: abs_if)
  then show ?thesis by (simp add: laplacianNoise_def Let_def)
qed

lemma anonymizeTimestamp_quiet:
  "anonymizeTimestamp (pe_bucket quiet_env) (pe_rand quiet_env 256) (pe_now quiet_env 0)
     = Inr ''2024-01-01T10:00:00.000Z''"
proof -
  have r: "pe_rand quiet_env 256 = exp (- 1 / 2)" by (simp add: quiet_env_def)
  have "(0::real) < exp (- 1 / 2)" "exp (- 1 / 2) < (1::real)" by simp_all
  from laplacian_finite [OF this, of "30 * 1000"] show ?thesis
    unfolding anonymizeTimestamp_def r by (simp add: quiet_env_def)
qed

lemma fingerprint_quiet:
  "\<exists>fp. generateSessionFingerprint (pe_hmac quiet_env) (pl_deviceId pipeline0) (pl_userId pipeline0)
          (pe_now quiet_env 1) = Some fp"
  by (simp add: generateSessionFingerprint_def quiet_env_def echo_hmac_def)

lemma map_zip_snd:
  "length xs = length ys \<Longrightarrow> map (\<lambda>(i, x). g x) (zip xs ys) = map g ys"
  by (induction xs ys rule: list_induct2) simp_all

lemma perturb_quiet:
  "perturbVector (pe_rand quiet_env) v = map (\<lambda>x. JNum (js_round ((x + sqrt 2) * 10000) / 10000)) v"
proof -
  have r: "pe_rand quiet_env (2 * i) = exp (- 1 / 2)" "pe_rand quiet_env (2 * i + 1) = 0" for i
    by (simp_all add: quiet_env_def)
  have g: "js_div (js_round_num (js_mul (js_add (JNum x) (JNum (sqrt 2))) (JNum 10000))) (JNum 10000)
      = JNum (js_round ((x + sqrt 2) * 10000) / 10000)" for x
    by simp
  have "perturbVector (pe_rand quiet_env) v
      = map (\<lambda>(i, x). JNum (js_round ((x + sqrt 2) * 10000) / 10000)) (zip [0 ..< length v] v)"
    by (simp only: perturbVector_def Let_def r quiet_noise g)
  also have "\<dots> = map (\<lambda>x. JNum (js_round ((x + sqrt 2) * 10000) / 10000)) v"
    by (rule map_zip_snd) simp
  finally show ?thesis .
qed

lemma perturb_zero:
  "perturbVector (pe_rand zero_env) v = map (\<lambda>x. JPosInf) v"
proof -
  have r: "pe_rand zero_env k = 0" for k
    by (simp add: zero_env_def)
  have g: "js_div (js_round_num (js_mul (js_add (JNum x) JPosInf) (JNum 10000))) (JNum 10000) = JPosInf" for x
    by simp
  have "perturbVector (pe_rand zero_env) v = map (\<lambda>(i, x). JPosInf) (zip [0 ..< length v] v)"
    by (simp only: perturbVector_def Let_def r zero_noise g)
  also have "\<dots> = map (\<lambda>x. JPosInf) v"
    by (rule map_zip_snd) simp
  finally show ?thesis .
qed

lemma length_perturbVector: "length (perturbVector rand v) = length v"
  by (simp add: perturbVector_def)

lemma perturb_quiet_far:
  assumes len: "length v = 128" and n: "\<bar>l2norm v - 1\<bar> \<le> 1 / 100"
  shows "4 < l2norm (map (\<lambda>x. js_round ((x + sqrt 2) * 10000) / 10000) v)"
proof -
  let ?g = "\<lambda>x. js_round ((x + sqrt 2) * 10000) / 10000"
  have c: "39 / 100 \<le> ?g x" if "x \<in> set v" for x
  proof -
    from member_le_l2norm [OF that] n have x: "- (101 / 100) \<le> x" by linarith
    define y where "y = (x + sqrt 2) * 10000"
    define J where "J = js_round y"
    have "\<bar>J - y\<bar> \<le> 1 / 2" unfolding J_def by (rule js_round_near)
    moreover have "y = 10000 * x + 10000 * sqrt 2" by (simp add: y_def algebra_simps)
    ultimately have "39 / 100 \<le> J / 10000" using sqrt2_lower x by linarith
    then show ?thesis unfolding J_def y_def .
  qed
  have "\<forall>x\<in>set v. (39 / 100) * (39 / 100) \<le> ?g x * ?g x"
  proof
    fix x assume "x \<in> set v"
    from c [OF this] show "(39 / 100) * (39 / 100) \<le> ?g x * ?g x"
      by (intro mult_mono) simp_all
  qed
  from sum_list_lower [OF this] have "(39 / 100) * (39 / 100) * 128 \<le> sum_list (map (\<lambda>x. ?g x * ?g x) v)"
    by (simp add: len)
  then have "4 ^ 2 < sum_list (map (\<lambda>x. ?g x * ?g x) v)" by simp
  then have "4 < sqrt (sum_list (map (\<lambda>x. ?g x * ?g x) v))" by (rule real_less_rsqrt)
  then show ?thesis by (simp add: l2norm_sum comp_def)
qed

lemma quiet_engine_ok: "engine_ok (pe_exec quiet_env) t"
  by (simp add: engine_ok_def quiet_env_def)

lemma zero_engine_ok: "engine_ok (pe_exec zero_env) t"
  by (simp add: engine_ok_def quiet_env_def zero_env_def)

text \<open>
  Claim C4, as the code has it. Take any user-interaction event whose action is
  \<^verbatim>\<open>input\<close> or \<^verbatim>\<open>paste\<close> on an element of input type \<^verbatim>\<open>password\<close>, any
  pipeline state, and any values of the random draws for which \<^verbatim>\<open>anonymizeTimestamp\<close>
  returns a bucket, on a platform whose HMAC signs the session message; the
  regular-expression engine is assumed to return non-empty matches inside the text, at or
  after the position it was asked to start from. Then \<^verbatim>\<open>process\<close> returns a Secure Event
  with label \<^verbatim>\<open>authentication\<close> and confidence 0.85. Its intent vector has 128 components
  and is the Gaussian perturbation of the encoder's vector, and it is the encoder's vector,
  before the noise, whose L2 norm lies within 0.01 of 1. Numbers are real numbers here.
\<close>

theorem process_password_input:
  assumes eng: "\<forall>t. engine_ok (pe_exec env) t"
    and ty: "eventType event = ''user_int''"
    and act: "p_action event = Some ''input'' \<or> p_action event = Some ''paste''"
    and pw: "map_option inputType (p_target event) = Some (Some ''password'')"
    and ts: "anonymizeTimestamp (pe_bucket env) (pe_rand env 256) (pe_now env 0) = Inr stamp"
    and fp: "generateSessionFingerprint (pe_hmac env) (pl_deviceId pl) (pl_userId pl) (pe_now env 1) = Some fingerprint"
  shows "\<exists>out pl'. process env pl event = Some (Inr out, pl')
           \<and> out_intentLabel out = ''authentication''
           \<and> out_intentConfidence out = 0.85
           \<and> out_intentVector out = perturbVector (pe_rand env) (generateVector ''authentication'' event)
           \<and> length (out_intentVector out) = 128
           \<and> \<bar>l2norm (generateVector ''authentication'' event) - 1\<bar> \<le> 0.01
           \<and> out_timestampBucket out = stamp
           \<and> out_sessionFingerprint out = fingerprint"
proof -
  from scrubEvent_total [OF eng, of "entityCounters pl" event]
  obtain e' cs' where s: "scrubEvent env (entityCounters pl) event = Some (e', cs')"
    and f: "eventType e' = eventType event" "p_action e' = p_action event"
      "p_method e' = p_method event" "p_statusCode e' = p_statusCode event"
      "map_option inputType (p_target e') = map_option inputType (p_target event)"
      "map_option tagName (p_target e') = map_option tagName (p_target event)"
      "map_option domPath (p_target e') = map_option domPath (p_target event)"
      "map_option position (p_target e') = map_option position (p_target event)"
    by blast
  have c: "classify e' = (''authentication'', 0.85)"
    by (rule classify_password) (simp_all add: f ty act pw)
  have g: "generateVector ''authentication'' e' = generateVector ''authentication'' event"
    using extractFeatures_cong [of e' event] f by (simp add: generateVector_def)
  from generateVector_norm [of "''authentication''" event]
  have n: "length (generateVector ''authentication'' event) = 128"
    "\<bar>l2norm (generateVector ''authentication'' event) - 1\<bar> \<le> 1 / 100" by simp_all
  have ts': "anonymizeTimestamp (pe_bucket env)
      (pe_rand env (2 * length (generateVector (fst (classify e')) e'))) (pe_now env 0) = Inr stamp"
    unfolding c fst_conv g n(1) using ts by simp
  from process_fields [OF s ts' fp] obtain out pl' where p: "process env pl event = Some (Inr out, pl')"
    "out_intentLabel out = fst (classify e')"
    "out_intentConfidence out = js_round (snd (classify e') * 100) / 100"
    "out_intentVector out = perturbVector (pe_rand env) (generateVector (fst (classify e')) e')"
    "out_timestampBucket out = stamp" "out_sessionFingerprint out = fingerprint"
    by blast
  have l: "length (out_intentVector out) = 128"
    unfolding p(4) c fst_conv g by (simp add: length_perturbVector n(1))
  have "out_intentLabel out = ''authentication''" using p(2) c by simp
  moreover have "out_intentConfidence out = 0.85" unfolding p(3) c snd_conv by (rule js_round_85)
  moreover have "out_intentVector out = perturbVector (pe_rand env) (generateVector ''authentication'' event)"
    unfolding p(4) c fst_conv g ..
  moreover have "\<bar>l2norm (generateVector ''authentication'' event) - 1\<bar> \<le> 0.01" using n(2) by simp
  ultimately show ?thesis using p(1,5,6) l by blast
qed

text \<open>The theorem at a typed password, with an engine that finds nothing.\<close>

theorem process_password_input_witness:
  "\<exists>out pl'. process quiet_env pipeline0 (user_event ''input'') = Some (Inr out, pl')
           \<and> out_intentLabel out = ''authentication''
           \<and> out_intentConfidence out = 0.85
           \<and> out_intentVector out = perturbVector (pe_rand quiet_env) (generateVector ''authentication'' (user_event ''input''))
           \<and> length (out_intentVector out) = 128
           \<and> \<bar>l2norm (generateVector ''authentication'' (user_event ''input'')) - 1\<bar> \<le> 0.01
           \<and> out_timestampBucket out = ''2024-01-01T10:00:00.000Z''"
proof -
  from fingerprint_quiet obtain fp where
    fp: "generateSessionFingerprint (pe_hmac quiet_env) (pl_deviceId pipeline0) (pl_userId pipeline0)
          (pe_now quiet_env 1) = Some fp" by blast
  have e: "eventType (user_event ''input'') = ''user_int''"
    "p_action (user_event ''input'') = Some ''input'' \<or> p_action (user_event ''input'') = Some ''paste''"
    "map_option inputType (p_target (user_event ''input'')) = Some (Some ''password'')"
    by (simp_all add: user_event_def password_field_def)
  have q: "\<forall>t. engine_ok (pe_exec quiet_env) t" by (simp add: quiet_engine_ok)
  from process_password_input [OF q e anonymizeTimestamp_quiet fp] show ?thesis by blast
qed

text \<open>
  Three runs on the same password field. A click is labelled \<^verbatim>\<open>unknown\<close> with
  confidence 0.2. A typed character is labelled \<^verbatim>\<open>authentication\<close>, and with every
  Gaussian draw equal to one standard deviation the emitted vector has an L2 norm above 4.
  With every draw of \<^verbatim>\<open>Math.random()\<close> equal to 0 the noise of the timestamp is
  \<^verbatim>\<open>-Infinity\<close> and \<^verbatim>\<open>process\<close> throws \<^verbatim>\<open>RangeError\<close>: there is no Secure Event.
\<close>

theorem password_click_and_noise_counterexample:
  "(\<exists>out pl'. process quiet_env pipeline0 (user_event ''click'') = Some (Inr out, pl')
       \<and> out_intentLabel out = ''unknown'' \<and> out_intentConfidence out = 0.2)
   \<and> (\<exists>out pl' w. process quiet_env pipeline0 (user_event ''input'') = Some (Inr out, pl')
       \<and> out_intentLabel out = ''authentication'' \<and> out_intentVector out = map JNum w \<and> 4 < l2norm w)
   \<and> (\<exists>pl'. process zero_env pipeline0 (user_event ''input'') = Some (Inl RangeError, pl'))"
proof (intro conjI)
  let ?e = "user_event ''click''"
  from fingerprint_quiet obtain fp where
    fp: "generateSessionFingerprint (pe_hmac quiet_env) (pl_deviceId pipeline0) (pl_userId pipeline0)
          (pe_now quiet_env 1) = Some fp" by blast
  from scrubEvent_total [of quiet_env "entityCounters pipeline0" ?e] quiet_engine_ok
  obtain e' cs' where s: "scrubEvent quiet_env (entityCounters pipeline0) ?e = Some (e', cs')"
    and f: "eventType e' = eventType ?e" "p_action e' = p_action ?e"
      "map_option inputType (p_target e') = map_option inputType (p_target ?e)"
      "map_option tagName (p_target e') = map_option tagName (p_target ?e)"
      "map_option aria_role (p_target e') = map_option aria_role (p_target ?e)"
    by blast
  have c: "classify e' = (''unknown'', 0.2)"
    by (rule classify_click_password) (simp_all add: f user_event_def password_field_def)
  have ts: "anonymizeTimestamp (pe_bucket quiet_env)
      (pe_rand quiet_env (2 * length (generateVector (fst (classify e')) e'))) (pe_now quiet_env 0)
        = Inr ''2024-01-01T10:00:00.000Z''"
    using generateVector_norm [of "fst (classify e')" e'] anonymizeTimestamp_quiet by simp
  from process_fields [OF s ts fp] obtain out pl' where p: "process quiet_env pipeline0 ?e = Some (Inr out, pl')"
    "out_intentLabel out = fst (classify e')"
    "out_intentConfidence out = js_round (snd (classify e') * 100) / 100"
    by blast
  have "out_intentConfidence out = 0.2" unfolding p(3) c snd_conv by (rule js_round_20)
  with p c show "\<exists>out pl'. process quiet_env pipeline0 ?e = Some (Inr out, pl')
       \<and> out_intentLabel out = ''unknown'' \<and> out_intentConfidence out = 0.2" by auto
next
  let ?e = "user_event ''input''"
  from fingerprint_quiet obtain fp where
    fp: "generateSessionFingerprint (pe_hmac quiet_env) (pl_deviceId pipeline0) (pl_userId pipeline0)
          (pe_now quiet_env 1) = Some fp" by blast
  from scrubEvent_total [of quiet_env "entityCounters pipeline0" ?e] quiet_engine_ok
  obtain e' cs' where s: "scrubEvent quiet_env (entityCounters pipeline0) ?e = Some (e', cs')"
    and f: "eventType e' = eventType ?e" "p_action e' = p_action ?e"
      "map_option inputType (p_target e') = map_option inputType (p_target ?e)"
    by blast
  have c: "classify e' = (''authentication'', 0.85)"
    by (rule classify_password) (simp_all add: f user_event_def password_field_def)
  have ts: "anonymizeTimestamp (pe_bucket quiet_env)
      (pe_rand quiet_env (2 * length (generateVector (fst (classify e')) e'))) (pe_now quiet_env 0)
        = Inr ''2024-01-01T10:00:00.000Z''"
    using generateVector_norm [of "fst (classify e')" e'] anonymizeTimestamp_quiet by simp
  from process_fields [OF s ts fp] obtain out pl' where p: "process quiet_env pipeline0 ?e = Some (Inr out, pl')"
    "out_intentLabel out = fst (classify e')"
    "out_intentVector out = perturbVector (pe_rand quiet_env) (generateVector (fst (classify e')) e')"
    by blast
  define w where "w = map (\<lambda>x. js_round ((x + sqrt 2) * 10000) / 10000) (generateVector ''authentication'' e')"
  from generateVector_norm [of "''authentication''" e']
  have "4 < l2norm w" unfolding w_def by (intro perturb_quiet_far) simp_all
  moreover have "out_intentVector out = map JNum w"
    unfolding p(3) c fst_conv perturb_quiet w_def by (simp add: comp_def)
  ultimately show "\<exists>out pl' w. process quiet_env pipeline0 ?e = Some (Inr out, pl')
       \<and> out_intentLabel out = ''authentication'' \<and> out_intentVector out = map JNum w \<and> 4 < l2norm w"
    using p c by auto
next
  let ?e = "user_event ''input''"
  from scrubEvent_total [of zero_env "entityCounters pipeline0" ?e] zero_engine_ok
  obtain e' cs' where s: "scrubEvent zero_env (entityCounters pipeline0) ?e = Some (e', cs')"
    by blast
  have r: "pe_rand zero_env k = 0" for k by (simp add: zero_env_def)
  have ts: "anonymizeTimestamp (pe_bucket zero_env)
      (pe_rand zero_env (2 * length (generateVector (fst (classify e')) e'))) (pe_now zero_env 0)
        = Inl RangeError"
    unfolding r by (rule anonymizeTimestamp_zero)
  from process_throws [OF s ts]
  show "\<exists>pl'. process zero_env pipeline0 ?e = Some (Inl RangeError, pl')" by blast
qed


end
